theory Spec2Isabelle
  imports Main "HOL-Library.AList" "HOL-Library.Sublist"
begin

section \<open>Python values used by the script\<close>

text \<open>
  The script \<^verbatim>\<open>scripts/download_pge_ica_timeseries.py\<close> guards two statements with
  \<^verbatim>\<open>if ~badzip:\<close>, where \<^verbatim>\<open>badzip\<close> is a Python \<^verbatim>\<open>bool\<close>. On a \<^verbatim>\<open>bool\<close> the operator
  \<^verbatim>\<open>~\<close> is the integer bitwise complement (\<^verbatim>\<open>~False = -1\<close>, \<^verbatim>\<open>~True = -2\<close>), and an
  integer is truthy exactly when it is not zero.
\<close>

definition py_invert :: "bool \<Rightarrow> int" where
  "py_invert b = - (if b then 1 else 0) - 1"

definition py_truthy :: "int \<Rightarrow> bool" where
  "py_truthy n = (n \<noteq> 0)"

text \<open>The module constant \<^verbatim>\<open>tries = 20\<close> (line 58).\<close>

definition tries :: nat where
  "tries = 20"

definition login_url :: string where
  "login_url = ''https://www.pge.com/b2b/distribution-resource-planning/integration-capacity-map.shtml''"

definition data_url :: string where
  "data_url = ''https://www.pge.com/b2b/distribution-resource-planning/downloads/integration-capacity/''"

text \<open>
  The exceptions that can leave a function of the script.
  \<^verbatim>\<open>NameError\<close> stands for the \<^verbatim>\<open>UnboundLocalError\<close> (a subclass of \<^verbatim>\<open>NameError\<close>)
  that Python raises when the local \<^verbatim>\<open>df\<close> is read before any assignment;
  \<^verbatim>\<open>KeyError\<close> is what \<^verbatim>\<open>ZipFile.open\<close> raises for a member that is not in the archive;
  \<^verbatim>\<open>EmptyDataError\<close> and \<^verbatim>\<open>ParserError\<close> are raised by \<^verbatim>\<open>pd.read_csv\<close>, and \<^verbatim>\<open>ZlibError\<close>
  stands for the \<^verbatim>\<open>zlib.error\<close> of a member whose compressed data cannot be inflated.
  None of them is caught anywhere in the script.
\<close>

datatype py_exception =
  NoSuchWindowException | NameError | KeyError | EmptyDataError | ParserError | ZlibError

section \<open>The world outside the script\<close>

text \<open>
  A data frame is a list of rows of cells. A member of an archive holds text, or is
  damaged (reading it raises \<^verbatim>\<open>BadZipFile\<close>, as on a wrong checksum), or is garbled (its
  data cannot be inflated and reading it raises \<^verbatim>\<open>zlib.error\<close>). A file in the download
  directory is either not a zip archive at all (\<^verbatim>\<open>ZipFile(...)\<close> raises \<^verbatim>\<open>BadZipFile\<close>) or
  an archive with named members. A file of the output directory holds text.
\<close>

type_synonym dataframe = "string list list"

datatype member = Stored string | Damaged | Garbled

datatype zipfile = NotAZip | Zip "(string \<times> member) list"

datatype locator = ById string | ByXPath string

text \<open>Every call the script makes to the outside world is recorded, in order.\<close>

datatype event =
    Print string
  | PrintList "string list"
  | Sleep nat
  | Get string
  | Find locator
  | SendKeys locator string
  | Click locator
  | OpenZip string
  | Remove string
  | WriteCsv string

text \<open>
  The world: the browser with the portal behind it (opaque), the download directory
  \<^verbatim>\<open>download_dir\<close> (file name to content), the output directory \<^verbatim>\<open>df_dir\<close>, which is the
  current directory after \<^verbatim>\<open>os.chdir(df_dir)\<close>, and the record of calls.
\<close>

record 'e world =
  browser :: 'e
  download_dir :: "(string \<times> zipfile) list"
  df_dir :: "(string \<times> string) list"
  trace :: "event list"

text \<open>
  What the script does not control: whether \<^verbatim>\<open>driver.get\<close> raises
  \<^verbatim>\<open>NoSuchWindowException\<close> and what the browser then does to its own state and to the
  download directory; what happens to both while the script sleeps; which page elements
  exist; what typing and clicking do; the platform's path separator and current directory;
  the hash that fixes the iteration order of a Python set of strings; which texts
  \<^verbatim>\<open>pd.read_csv\<close> parses, into which frame, and the text \<^verbatim>\<open>to_csv\<close> renders for a frame;
  and what \<^verbatim>\<open>glob\<close> finds when the directory part of its pattern is itself a pattern or a
  root (see \<open>glob_csv\<close> below).
  The output directory is written by the script alone.
\<close>

record 'e env =
  navigate :: "string \<Rightarrow> 'e \<times> (string \<times> zipfile) list \<Rightarrow> bool \<times> 'e \<times> (string \<times> zipfile) list"
  elapse :: "nat \<Rightarrow> 'e \<times> (string \<times> zipfile) list \<Rightarrow> 'e \<times> (string \<times> zipfile) list"
  element_present :: "locator \<Rightarrow> 'e \<Rightarrow> bool"
  after_send_keys :: "locator \<Rightarrow> string \<Rightarrow> 'e \<Rightarrow> 'e"
  after_click :: "locator \<Rightarrow> 'e \<Rightarrow> 'e"
  os_sep :: string
  getcwd :: string
  str_hash :: "string \<Rightarrow> nat"
  read_csv :: "string \<Rightarrow> py_exception + dataframe"
  csv_text :: "dataframe \<Rightarrow> string"
  glob_elsewhere :: "string list \<Rightarrow> string list"

definition emit :: "event \<Rightarrow> 'e world \<Rightarrow> 'e world" where
  "emit e w = w\<lparr>trace := trace w @ [e]\<rparr>"

definition print :: "string \<Rightarrow> 'e world \<Rightarrow> 'e world" where
  "print s w = emit (Print s) w"

text \<open>\<^verbatim>\<open>time.sleep(n)\<close>: the outside world moves on.\<close>

definition sleep :: "'e env \<Rightarrow> nat \<Rightarrow> 'e world \<Rightarrow> 'e world" where
  "sleep env n w =
     (case elapse env n (browser w, download_dir w) of
        (b, d) \<Rightarrow> (emit (Sleep n) w)\<lparr>browser := b, download_dir := d\<rparr>)"

text \<open>\<^verbatim>\<open>driver.get(url)\<close>: the flag says whether \<^verbatim>\<open>NoSuchWindowException\<close> was raised.\<close>

definition driver_get :: "'e env \<Rightarrow> string \<Rightarrow> 'e world \<Rightarrow> bool \<times> 'e world" where
  "driver_get env url w =
     (case navigate env url (browser w, download_dir w) of
        (raised, b, d) \<Rightarrow> (raised, (emit (Get url) w)\<lparr>browser := b, download_dir := d\<rparr>))"

text \<open>\<^verbatim>\<open>driver.find_element(...)\<close>: False is \<^verbatim>\<open>NoSuchElementException\<close>.\<close>

definition find_element :: "'e env \<Rightarrow> locator \<Rightarrow> 'e world \<Rightarrow> bool \<times> 'e world" where
  "find_element env l w = (element_present env l (browser w), emit (Find l) w)"

definition send_keys :: "'e env \<Rightarrow> locator \<Rightarrow> string \<Rightarrow> 'e world \<Rightarrow> 'e world" where
  "send_keys env l s w = (emit (SendKeys l s) w)\<lparr>browser := after_send_keys env l s (browser w)\<rparr>"

definition click :: "'e env \<Rightarrow> locator \<Rightarrow> 'e world \<Rightarrow> 'e world" where
  "click env l w = (emit (Click l) w)\<lparr>browser := after_click env l (browser w)\<rparr>"

text \<open>
  \<^verbatim>\<open>ZipFile(download_dir + name)\<close>: the file is missing (\<^verbatim>\<open>FileNotFoundError\<close>), is not an
  archive (\<^verbatim>\<open>BadZipFile\<close>), or opens.
\<close>

datatype opened = FileNotFound | BadZip | Opened "(string \<times> member) list"

definition open_zip :: "string \<Rightarrow> 'e world \<Rightarrow> opened \<times> 'e world" where
  "open_zip name w =
     ((case map_of (download_dir w) name of
         None \<Rightarrow> FileNotFound
       | Some NotAZip \<Rightarrow> BadZip
       | Some (Zip ms) \<Rightarrow> Opened ms),
      emit (OpenZip name) w)"

text \<open>\<^verbatim>\<open>os.remove(download_dir + name)\<close>: False is \<^verbatim>\<open>FileNotFoundError\<close>.\<close>

definition os_remove :: "string \<Rightarrow> 'e world \<Rightarrow> bool \<times> 'e world" where
  "os_remove name w =
     (case map_of (download_dir w) name of
        None \<Rightarrow> (False, emit (Remove name) w)
      | Some z \<Rightarrow> (True, (emit (Remove name) w)\<lparr>download_dir := AList.delete name (download_dir w)\<rparr>))"

text \<open>
  \<^verbatim>\<open>pd.read_csv\<close> on the text of a member: no text at all is \<^verbatim>\<open>EmptyDataError\<close>; for any
  other text the parser decides between a frame and an exception.
\<close>

definition pd_read_csv :: "'e env \<Rightarrow> string \<Rightarrow> py_exception + dataframe" where
  "pd_read_csv env text = (if text = [] then Inl EmptyDataError else read_csv env text)"

text \<open>
  \<^verbatim>\<open>df.to_csv(name, index=False)\<close> in the current directory: the file holds the text
  rendered for the frame, which need not be the text the frame was parsed from.
\<close>

definition to_csv :: "'e env \<Rightarrow> string \<Rightarrow> dataframe \<Rightarrow> 'e world \<Rightarrow> 'e world" where
  "to_csv env name t w =
     (emit (WriteCsv name) w)\<lparr>df_dir := AList.update name (csv_text env t) (df_dir w)\<rparr>"

section \<open>The worker \<^verbatim>\<open>process_zip\<close>\<close>

text \<open>
  One pass through the body of a \<^verbatim>\<open>while i < tries\<close> loop ends in \<^verbatim>\<open>break\<close>, falls
  through to the next test of the loop condition, or raises an exception that no handler
  of the loop catches; \<open>ctl_state\<close> is the state it leaves.
\<close>

datatype 's ctl = Break (ctl_state: 's) | Continue (ctl_state: 's) | Raise py_exception (ctl_state: 's)

text \<open>Lines 116-125, the download loop. Its state is \<^verbatim>\<open>i\<close> and the world.\<close>

definition fetch_body :: "'e env \<Rightarrow> string \<Rightarrow> string \<Rightarrow> nat \<times> 'e world \<Rightarrow> (nat \<times> 'e world) ctl" where
  "fetch_body env durl ident s =
     (case s of (i, w) \<Rightarrow>
        (case driver_get env (durl @ ident @ ''.zip'') w of
           (False, w1) \<Rightarrow> Break (i, print (''downloaded '' @ ident) w1)
         | (True, w1) \<Rightarrow> Continue (i + 1, sleep env 1 (print ''no such window...'' w1))))"

function fetch_loop :: "'e env \<Rightarrow> string \<Rightarrow> string \<Rightarrow> nat \<times> 'e world \<Rightarrow> nat \<times> 'e world" where
  "fetch_loop env durl ident s =
     (if fst s < tries then
        (case fetch_body env durl ident s of
           Break s' \<Rightarrow> s'
         | Continue s' \<Rightarrow> fetch_loop env durl ident s'
         | Raise e s' \<Rightarrow> s')
      else s)"
  by pat_completeness auto
termination
  by (relation "measure (\<lambda>(env, durl, ident, s). tries - fst s)")
     (auto simp: fetch_body_def split: prod.splits bool.splits)

function fetch_iters :: "'e env \<Rightarrow> string \<Rightarrow> string \<Rightarrow> nat \<times> 'e world \<Rightarrow> nat" where
  "fetch_iters env durl ident s =
     (if fst s < tries then
        (case fetch_body env durl ident s of
           Break s' \<Rightarrow> 1
         | Continue s' \<Rightarrow> 1 + fetch_iters env durl ident s'
         | Raise e s' \<Rightarrow> 1)
      else 0)"
  by pat_completeness auto
termination
  by (relation "measure (\<lambda>(env, durl, ident, s). tries - fst s)")
     (auto simp: fetch_body_def split: prod.splits bool.splits)

text \<open>
  Lines 128-143, the loop that opens the archive. Its state is \<^verbatim>\<open>i\<close>, \<^verbatim>\<open>badzip\<close>,
  the local \<^verbatim>\<open>df\<close> (None while nothing has been assigned to it) and the world.
  Line 135 can fail in ways that neither handler catches: a member that is not in the
  archive (\<^verbatim>\<open>KeyError\<close>), data that cannot be inflated (\<^verbatim>\<open>zlib.error\<close>) and text that
  \<^verbatim>\<open>pd.read_csv\<close> rejects; \<^verbatim>\<open>df\<close> is bound only when the text has been parsed.
\<close>

type_synonym 'e locals = "nat \<times> bool \<times> dataframe option \<times> 'e world"

definition extract_body :: "'e env \<Rightarrow> string \<Rightarrow> 'e locals \<Rightarrow> ('e locals) ctl" where
  "extract_body env ident s =
     (case s of (i, badzip, df, w) \<Rightarrow>
        (case open_zip (ident @ ''.zip'') (print (''trying '' @ ident) w) of
           (FileNotFound, w1) \<Rightarrow> Continue (i + 1, badzip, df, sleep env 2 w1)
         | (BadZip, w1) \<Rightarrow> Continue (tries, True, df, w1)
         | (Opened ms, w1) \<Rightarrow>
             (case map_of ms (ident @ ''.csv'') of
                None \<Rightarrow> Raise KeyError (i, badzip, df, print (''opened '' @ ident) w1)
              | Some Damaged \<Rightarrow> Continue (tries, True, df, print (''opened '' @ ident) w1)
              | Some Garbled \<Rightarrow> Raise ZlibError (i, badzip, df, print (''opened '' @ ident) w1)
              | Some (Stored text) \<Rightarrow>
                  (case pd_read_csv env text of
                     Inl e \<Rightarrow> Raise e (i, badzip, df, print (''opened '' @ ident) w1)
                   | Inr t \<Rightarrow> Break (i, badzip, Some t, print (''opened '' @ ident) w1)))))"

function extract_loop :: "'e env \<Rightarrow> string \<Rightarrow> 'e locals \<Rightarrow> py_exception option \<times> 'e locals" where
  "extract_loop env ident s =
     (if fst s < tries then
        (case extract_body env ident s of
           Break s' \<Rightarrow> (None, s')
         | Continue s' \<Rightarrow> extract_loop env ident s'
         | Raise e s' \<Rightarrow> (Some e, s'))
      else (None, s))"
  by pat_completeness auto
termination
  by (relation "measure (\<lambda>(env, ident, s). tries - fst s)")
     (auto simp: extract_body_def open_zip_def
           split: prod.splits opened.splits option.splits member.splits sum.splits zipfile.splits)

function extract_iters :: "'e env \<Rightarrow> string \<Rightarrow> 'e locals \<Rightarrow> nat" where
  "extract_iters env ident s =
     (if fst s < tries then
        (case extract_body env ident s of
           Break s' \<Rightarrow> 1
         | Continue s' \<Rightarrow> 1 + extract_iters env ident s'
         | Raise e s' \<Rightarrow> 1)
      else 0)"
  by pat_completeness auto
termination
  by (relation "measure (\<lambda>(env, ident, s). tries - fst s)")
     (auto simp: extract_body_def open_zip_def
           split: prod.splits opened.splits option.splits member.splits sum.splits zipfile.splits)

text \<open>
  Lines 146-156, the loop that deletes the archive. The guard is \<^verbatim>\<open>~badzip\<close>; were it
  false, the body would do nothing and the loop would test \<^verbatim>\<open>i < tries\<close> again with
  \<^verbatim>\<open>i\<close> unchanged.
\<close>

definition cleanup_body :: "'e env \<Rightarrow> string \<Rightarrow> bool \<Rightarrow> nat \<times> 'e world \<Rightarrow> (nat \<times> 'e world) ctl" where
  "cleanup_body env ident badzip s =
     (case s of (i, w) \<Rightarrow>
        (if py_truthy (py_invert badzip) then
           (case os_remove (ident @ ''.zip'') (print (''trying to delete '' @ ident) w) of
              (True, w1) \<Rightarrow> Break (i, print (''deleted '' @ ident) w1)
            | (False, w1) \<Rightarrow> Continue (i + 1, sleep env 2 w1))
         else Continue (i, w)))"

function cleanup_loop :: "'e env \<Rightarrow> string \<Rightarrow> bool \<Rightarrow> nat \<times> 'e world \<Rightarrow> nat \<times> 'e world" where
  "cleanup_loop env ident badzip s =
     (if fst s < tries then
        (case cleanup_body env ident badzip s of
           Break s' \<Rightarrow> s'
         | Continue s' \<Rightarrow> cleanup_loop env ident badzip s'
         | Raise e s' \<Rightarrow> s')
      else s)"
  by pat_completeness auto
termination
  by (relation "measure (\<lambda>(env, ident, badzip, s). tries - fst s)")
     (auto simp: cleanup_body_def os_remove_def py_truthy_def py_invert_def
           split: prod.splits option.splits if_splits)

function cleanup_iters :: "'e env \<Rightarrow> string \<Rightarrow> bool \<Rightarrow> nat \<times> 'e world \<Rightarrow> nat" where
  "cleanup_iters env ident badzip s =
     (if fst s < tries then
        (case cleanup_body env ident badzip s of
           Break s' \<Rightarrow> 1
         | Continue s' \<Rightarrow> 1 + cleanup_iters env ident badzip s'
         | Raise e s' \<Rightarrow> 1)
      else 0)"
  by pat_completeness auto
termination
  by (relation "measure (\<lambda>(env, ident, badzip, s). tries - fst s)")
     (auto simp: cleanup_body_def os_remove_def py_truthy_def py_invert_def
           split: prod.splits option.splits if_splits)

text \<open>Lines 159-160: \<^verbatim>\<open>if ~badzip: df.to_csv(id + ".csv", index=False)\<close>.\<close>

definition save :: "'e env \<Rightarrow> string \<Rightarrow> bool \<Rightarrow> dataframe option \<Rightarrow> 'e world \<Rightarrow> (py_exception + unit) \<times> 'e world" where
  "save env ident badzip df w =
     (if py_truthy (py_invert badzip) then
        (case df of
           None \<Rightarrow> (Inl NameError, w)
         | Some t \<Rightarrow> (Inr (), to_csv env (ident @ ''.csv'') t w))
      else (Inr (), w))"

text \<open>Lines 102-160. The result is the exception that leaves the function, if any.\<close>

definition process_zip :: "'e env \<Rightarrow> string \<Rightarrow> string \<Rightarrow> 'e world \<Rightarrow> (py_exception + unit) \<times> 'e world" where
  "process_zip env durl ident w =
     (case extract_loop env ident (0, False, None, snd (fetch_loop env durl ident (0, w))) of
        (Some e, (i, badzip, df, w2)) \<Rightarrow> (Inl e, w2)
      | (None, (i, badzip, df, w2)) \<Rightarrow>
          save env ident badzip df (snd (cleanup_loop env ident badzip (0, w2))))"

section \<open>The authenticator \<^verbatim>\<open>login\<close>\<close>

text \<open>
  Lines 91-98, the body of the retry loop: each of the three lookups can raise
  \<^verbatim>\<open>NoSuchElementException\<close>, after which \<^verbatim>\<open>i\<close> is incremented and the script sleeps two
  seconds; what was typed before the failing lookup stays typed.
\<close>

definition login_body :: "'e env \<Rightarrow> string \<Rightarrow> string \<Rightarrow> nat \<times> 'e world \<Rightarrow> (nat \<times> 'e world) ctl" where
  "login_body env username password s =
     (case s of (i, w) \<Rightarrow>
        (case find_element env (ById ''username'') w of
           (False, w1) \<Rightarrow> Continue (i + 1, sleep env 2 w1)
         | (True, w1) \<Rightarrow>
             (case find_element env (ByXPath ''//input[@placeholder='Password']'')
                     (send_keys env (ById ''username'') username w1) of
                (False, w2) \<Rightarrow> Continue (i + 1, sleep env 2 w2)
              | (True, w2) \<Rightarrow>
                  (case find_element env (ById ''submit'')
                          (send_keys env (ByXPath ''//input[@placeholder='Password']'') password w2) of
                     (False, w3) \<Rightarrow> Continue (i + 1, sleep env 2 w3)
                   | (True, w3) \<Rightarrow> Break (i, click env (ById ''submit'') w3)))))"

function login_loop :: "'e env \<Rightarrow> string \<Rightarrow> string \<Rightarrow> nat \<times> 'e world \<Rightarrow> nat \<times> 'e world" where
  "login_loop env username password s =
     (if fst s < tries then
        (case login_body env username password s of
           Break s' \<Rightarrow> s'
         | Continue s' \<Rightarrow> login_loop env username password s'
         | Raise e s' \<Rightarrow> s')
      else s)"
  by pat_completeness auto
termination
  by (relation "measure (\<lambda>(env, username, password, s). tries - fst s)")
     (auto simp: login_body_def find_element_def split: prod.splits bool.splits if_splits)

function login_iters :: "'e env \<Rightarrow> string \<Rightarrow> string \<Rightarrow> nat \<times> 'e world \<Rightarrow> nat" where
  "login_iters env username password s =
     (if fst s < tries then
        (case login_body env username password s of
           Break s' \<Rightarrow> 1
         | Continue s' \<Rightarrow> 1 + login_iters env username password s'
         | Raise e s' \<Rightarrow> 1)
      else 0)"
  by pat_completeness auto
termination
  by (relation "measure (\<lambda>(env, username, password, s). tries - fst s)")
     (auto simp: login_body_def find_element_def split: prod.splits bool.splits if_splits)

text \<open>
  Lines 74-100. The first \<^verbatim>\<open>driver.get\<close> is outside every \<^verbatim>\<open>try\<close>, so a
  \<^verbatim>\<open>NoSuchWindowException\<close> there leaves the function.
\<close>

definition login :: "'e env \<Rightarrow> string \<Rightarrow> string \<Rightarrow> string \<Rightarrow> 'e world \<Rightarrow> (py_exception + unit) \<times> 'e world" where
  "login env lurl username password w =
     (case driver_get env lurl w of
        (True, w1) \<Rightarrow> (Inl NoSuchWindowException, w1)
      | (False, w1) \<Rightarrow>
          (Inr (), sleep env 3 (snd (login_loop env username password (0, sleep env 2 w1)))))"

section \<open>The inventory scanner \<^verbatim>\<open>get_csv_list\<close>\<close>

text \<open>
  \<^verbatim>\<open>s.replace(old, new)\<close>: every occurrence of \<^verbatim>\<open>old\<close>, found from the left without
  overlap, becomes \<^verbatim>\<open>new\<close>; for the empty \<^verbatim>\<open>old\<close>, \<^verbatim>\<open>new\<close> goes before every
  character and at the end.
\<close>

function str_replace :: "string \<Rightarrow> string \<Rightarrow> string \<Rightarrow> string" where
  "str_replace old new s =
     (if s = [] then (if old = [] then new else [])
      else if old = [] then new @ hd s # str_replace old new (tl s)
      else if take (length old) s = old then new @ str_replace old new (drop (length old) s)
      else hd s # str_replace old new (tl s))"
  by pat_completeness auto
termination
  by (relation "measure (\<lambda>(old, new, s). length s)") (auto simp: neq_Nil_conv)

text \<open>The \<^verbatim>\<open>in\<close> operator on strings.\<close>

fun str_contains :: "string \<Rightarrow> string \<Rightarrow> bool" where
  "str_contains sub [] = (sub = [])"
| "str_contains sub (c # cs) = (take (length sub) (c # cs) = sub \<or> str_contains sub cs)"

text \<open>
  \<^verbatim>\<open>glob.glob(os.getcwd() + "/*.csv")\<close> splits its pattern into a directory part and
  \<^verbatim>\<open>*.csv\<close>. When the directory part holds none of the characters \<^verbatim>\<open>*\<close>, \<^verbatim>\<open>?\<close>, \<^verbatim>\<open>[\<close> and
  does not end in a separator, the result is the names of that directory that end in
  \<^verbatim>\<open>.csv\<close> and do not begin with a dot (the wildcard skips hidden files), each joined to the
  directory with the platform's separator (a backslash on Windows, a slash elsewhere);
  names are compared as written. Otherwise the directory part is itself matched as a
  pattern against the directories that exist, or is a root, to which the names are joined
  without a further separator: what \<^verbatim>\<open>glob\<close> returns then is left to the environment.
\<close>

definition has_magic :: "string \<Rightarrow> bool" where
  "has_magic s = (CHR ''*'' \<in> set s \<or> CHR ''?'' \<in> set s \<or> CHR ''['' \<in> set s)"

definition ends_in_separator :: "string \<Rightarrow> bool" where
  "ends_in_separator s = (s \<noteq> [] \<and> (last s = CHR ''/'' \<or> last s = CHR 0x5C))"

definition fnmatch_csv :: "string \<Rightarrow> bool" where
  "fnmatch_csv name =
     (take 1 name \<noteq> ''.'' \<and> 4 \<le> length name \<and> drop (length name - 4) name = ''.csv'')"

definition glob_csv :: "'e env \<Rightarrow> 'e world \<Rightarrow> string list" where
  "glob_csv env w =
     (if has_magic (getcwd env) \<or> ends_in_separator (getcwd env)
      then glob_elsewhere env (map fst (df_dir w))
      else map (\<lambda>name. getcwd env @ os_sep env @ name) (filter fnmatch_csv (map fst (df_dir w))))"

text \<open>Lines 162-174. The prefix that line 171 removes ends in a backslash.\<close>

definition get_csv_list :: "'e env \<Rightarrow> 'e world \<Rightarrow> string list" where
  "get_csv_list env w =
     map (str_replace ''.csv'' [])
       (map (str_replace (getcwd env @ [CHR 0x5C]) []) (glob_csv env w))"

section \<open>The driver\<close>

text \<open>\<^verbatim>\<open>str(n)\<close> for a length.\<close>

function str_nat :: "nat \<Rightarrow> string" where
  "str_nat n =
     (if n < 10 then [''0123456789'' ! n]
      else str_nat (n div 10) @ [''0123456789'' ! (n mod 10)])"
  by pat_completeness auto
termination
  by (relation "measure (\<lambda>n. n)") auto

text \<open>
  \<^verbatim>\<open>list(set(xs) - set(ys))\<close>: the elements of \<^verbatim>\<open>xs\<close> that are not in \<^verbatim>\<open>ys\<close>, once each,
  in the order the set iterates, which the hashes of the strings decide.
\<close>

definition set_difference_list :: "'e env \<Rightarrow> string list \<Rightarrow> string list \<Rightarrow> string list" where
  "set_difference_list env xs ys =
     sort_key (str_hash env) (remdups (filter (\<lambda>x. x \<notin> set ys) xs))"

text \<open>Lines 193-196: the first exception ends the loop and the script.\<close>

fun process_all :: "'e env \<Rightarrow> string list \<Rightarrow> 'e world \<Rightarrow> (py_exception + unit) \<times> 'e world" where
  "process_all env [] w = (Inr (), w)"
| "process_all env (ident # rest) w =
     (case process_zip env data_url ident (print ident w) of
        (Inl e, w1) \<Rightarrow> (Inl e, w1)
      | (Inr u, w1) \<Rightarrow> process_all env rest w1)"

definition csvs_missing :: "'e env \<Rightarrow> string list \<Rightarrow> 'e world \<Rightarrow> string list" where
  "csvs_missing env feeder_id_list w = set_difference_list env feeder_id_list (get_csv_list env w)"

text \<open>Lines 176-205, after the browser has been started.\<close>

definition driver :: "'e env \<Rightarrow> string \<Rightarrow> string \<Rightarrow> string list \<Rightarrow> 'e world \<Rightarrow> (py_exception + unit) \<times> 'e world" where
  "driver env username password feeder_id_list w =
     (case login env login_url username password w of
        (Inl e, w1) \<Rightarrow> (Inl e, w1)
      | (Inr u, w1) \<Rightarrow>
          (case process_all env (csvs_missing env feeder_id_list w1)
                  (print (''retrieving '' @ str_nat (length (csvs_missing env feeder_id_list w1)) @ '' feeder IDs'') w1) of
             (Inl e, w2) \<Rightarrow> (Inl e, w2)
           | (Inr u, w2) \<Rightarrow>
               (Inr (), emit (PrintList (csvs_missing env feeder_id_list w2))
                          (print ''IDs that weren't processed:'' w2))))"

declare fetch_loop.simps [simp del] fetch_iters.simps [simp del]
  extract_loop.simps [simp del] extract_iters.simps [simp del]
  cleanup_loop.simps [simp del] cleanup_iters.simps [simp del]
  login_loop.simps [simp del] login_iters.simps [simp del]
  str_replace.simps [simp del] str_nat.simps [simp del]

section \<open>Reading the record of calls\<close>

text \<open>The urls navigated to, the files written, removed and opened, in order.\<close>

definition gets :: "event list \<Rightarrow> string list" where
  "gets tr = concat (map (\<lambda>e. case e of Get u \<Rightarrow> [u] | _ \<Rightarrow> []) tr)"

definition writes :: "event list \<Rightarrow> string list" where
  "writes tr = concat (map (\<lambda>e. case e of WriteCsv n \<Rightarrow> [n] | _ \<Rightarrow> []) tr)"

definition removes :: "event list \<Rightarrow> string list" where
  "removes tr = concat (map (\<lambda>e. case e of Remove n \<Rightarrow> [n] | _ \<Rightarrow> []) tr)"

definition opens :: "event list \<Rightarrow> string list" where
  "opens tr = concat (map (\<lambda>e. case e of OpenZip n \<Rightarrow> [n] | _ \<Rightarrow> []) tr)"

definition reports :: "event list \<Rightarrow> string list list" where
  "reports tr = concat (map (\<lambda>e. case e of PrintList xs \<Rightarrow> [xs] | _ \<Rightarrow> []) tr)"

section \<open>Scenarios\<close>

text \<open>
  A small csv reader and writer for the scenarios: lines end in a line feed, blank lines
  are skipped, cells are separated by commas; a text without any line is
  \<^verbatim>\<open>EmptyDataError\<close>, a row with more cells than the header is \<^verbatim>\<open>ParserError\<close>; every row
  is written with its line feed.
\<close>

fun split_on :: "char \<Rightarrow> string \<Rightarrow> string list" where
  "split_on c [] = [[]]"
| "split_on c (x # xs) =
     (if x = c then [] # split_on c xs
      else (case split_on c xs of [] \<Rightarrow> [[x]] | y # ys \<Rightarrow> (x # y) # ys))"

fun join_cells :: "string list \<Rightarrow> string" where
  "join_cells [] = []"
| "join_cells [x] = x"
| "join_cells (x # y # ys) = x @ '','' @ join_cells (y # ys)"

definition lab_read_csv :: "string \<Rightarrow> py_exception + dataframe" where
  "lab_read_csv text =
     (case map (split_on (CHR '','')) (filter (\<lambda>l. l \<noteq> []) (split_on (CHR 0x0A) text)) of
        [] \<Rightarrow> Inl EmptyDataError
      | header # rows \<Rightarrow>
          (if list_ex (\<lambda>r. length header < length r) rows then Inl ParserError
           else Inr (header # rows)))"

definition lab_csv_text :: "dataframe \<Rightarrow> string" where
  "lab_csv_text rows = concat (map (\<lambda>r. join_cells r @ [CHR 0x0A]) rows)"

text \<open>
  A laboratory environment for running the script on concrete inputs. The browser state
  is the number of seconds slept so far; the page elements exist from second \<open>ready\<close> on;
  \<open>served\<close> maps a url to the file that navigating there puts into the download
  directory at once; no navigation raises; \<^verbatim>\<open>glob\<close> finds nothing where its result is left
  to the environment.
\<close>

definition lab_env ::
  "string \<Rightarrow> string \<Rightarrow> nat \<Rightarrow> (string \<times> string \<times> zipfile) list \<Rightarrow> (string \<Rightarrow> nat) \<Rightarrow> nat env" where
  "lab_env sep cwd ready served h =
     \<lparr> navigate = (\<lambda>url bd.
          (case map_of served url of
             None \<Rightarrow> (False, bd)
           | Some (name, z) \<Rightarrow> (False, fst bd, AList.update name z (snd bd)))),
       elapse = (\<lambda>n bd. (fst bd + n, snd bd)),
       element_present = (\<lambda>l b. ready \<le> b),
       after_send_keys = (\<lambda>l s b. b),
       after_click = (\<lambda>l b. b),
       os_sep = sep,
       getcwd = cwd,
       str_hash = h,
       read_csv = lab_read_csv,
       csv_text = lab_csv_text,
       glob_elsewhere = (\<lambda>names. []) \<rparr>"

definition empty_world :: "nat world" where
  "empty_world = \<lparr> browser = 0, download_dir = [], df_dir = [], trace = [] \<rparr>"

text \<open>The portal of the scenario "one corrupt archive": A is corrupt, B is sound.\<close>

definition portal_AB :: "(string \<times> string \<times> zipfile) list" where
  "portal_AB =
     [(data_url @ ''A.zip'', ''A.zip'', NotAZip),
      (data_url @ ''B.zip'', ''B.zip'', Zip [(''B.csv'', Stored (''hour,kw'' @ [CHR 0x0A] @ ''1,5''))])]"

definition windows_cwd :: string where
  "windows_cwd = ''C:'' @ [CHR 0x5C] @ ''ica''"

definition windows_AB :: "(string \<Rightarrow> nat) \<Rightarrow> nat env" where
  "windows_AB h = lab_env [CHR 0x5C] windows_cwd 0 portal_AB h"

definition A_first :: "string \<Rightarrow> nat" where
  "A_first s = (if s = ''A'' then 0 else 1)"

definition B_first :: "string \<Rightarrow> nat" where
  "B_first s = (if s = ''B'' then 0 else 1)"

text \<open>A corrupt download, a sound archive whose member is damaged, and a slow page.\<close>

definition world_with :: "string \<Rightarrow> zipfile \<Rightarrow> nat world" where
  "world_with name z = empty_world\<lparr>download_dir := [(name, z)]\<rparr>"

definition slow_page :: "nat \<Rightarrow> nat env" where
  "slow_page ready = lab_env [CHR 0x5C] windows_cwd ready portal_AB A_first"

text \<open>
  The identifiers for which the scanner is exact: not empty, not beginning with a dot, and
  holding neither a backslash nor the text \<^verbatim>\<open>.csv\<close>.
\<close>

definition plain_id :: "string \<Rightarrow> bool" where
  "plain_id ident =
     (ident \<noteq> [] \<and> take 1 ident \<noteq> ''.'' \<and> CHR 0x5C \<notin> set ident \<and> \<not> str_contains ''.csv'' ident)"

text \<open>The same portal on a platform whose separator is a slash, and a filled output directory.\<close>

definition posix_AB :: "nat env" where
  "posix_AB = lab_env ''/'' ''/home/ica'' 0 portal_AB A_first"

definition world_holding :: "(string \<times> string) list \<Rightarrow> nat world" where
  "world_holding files = empty_world\<lparr>df_dir := files\<rparr>"

section \<open>Properties\<close>

lemma py_truthy_invert: "py_truthy (py_invert b)"
  by (simp add: py_truthy_def py_invert_def)

lemma fetch_body_Continue: "fetch_body env durl ident s = Continue s' \<Longrightarrow> fst s' = Suc (fst s)"
  by (auto simp: fetch_body_def split: prod.splits bool.splits)

lemma extract_body_Continue:
  "extract_body env ident s = Continue s' \<Longrightarrow> fst s < tries \<Longrightarrow> fst s < fst s' \<and> fst s' \<le> tries"
  by (auto simp: extract_body_def open_zip_def
           split: prod.splits opened.splits option.splits member.splits sum.splits zipfile.splits)

lemma cleanup_body_Continue: "cleanup_body env ident badzip s = Continue s' \<Longrightarrow> fst s' = Suc (fst s)"
  by (auto simp: cleanup_body_def py_truthy_invert split: prod.splits bool.splits)

lemma login_body_Continue: "login_body env u p s = Continue s' \<Longrightarrow> fst s' = Suc (fst s)"
  by (auto simp: login_body_def split: prod.splits bool.splits)

text \<open>
  Only the body of the loop that opens the archive can raise; the other three loops have
  no exception to pass on.
\<close>

lemma bodies_never_raise:
  "fetch_body env durl ident s \<noteq> Raise e s'"
  "cleanup_body env ident badzip s \<noteq> Raise e s'"
  "login_body env u p s \<noteq> Raise e s'"
  by (auto simp: fetch_body_def cleanup_body_def login_body_def split: prod.splits bool.splits if_splits)

lemma fetch_iters_le: "fetch_iters env durl ident s \<le> tries - fst s"
proof (induction env durl ident s rule: fetch_iters.induct)
  case (1 env durl ident s)
  show ?case
  proof (cases "fst s < tries")
    case True
    then show ?thesis
      using 1 by (subst fetch_iters.simps) (fastforce split: ctl.splits dest: fetch_body_Continue)
  next
    case False
    then show ?thesis by (subst fetch_iters.simps) simp
  qed
qed

lemma extract_iters_le: "extract_iters env ident s \<le> tries - fst s"
proof (induction env ident s rule: extract_iters.induct)
  case (1 env ident s)
  show ?case
  proof (cases "fst s < tries")
    case True
    then show ?thesis
      using 1 by (subst extract_iters.simps) (fastforce split: ctl.splits dest: extract_body_Continue)
  next
    case False
    then show ?thesis by (subst extract_iters.simps) simp
  qed
qed

lemma cleanup_iters_le: "cleanup_iters env ident badzip s \<le> tries - fst s"
proof (induction env ident badzip s rule: cleanup_iters.induct)
  case (1 env ident badzip s)
  show ?case
  proof (cases "fst s < tries")
    case True
    then show ?thesis
      using 1 by (subst cleanup_iters.simps) (fastforce split: ctl.splits dest: cleanup_body_Continue)
  next
    case False
    then show ?thesis by (subst cleanup_iters.simps) simp
  qed
qed

lemma login_iters_le: "login_iters env u p s \<le> tries - fst s"
proof (induction env u p s rule: login_iters.induct)
  case (1 env u p s)
  show ?case
  proof (cases "fst s < tries")
    case True
    then show ?thesis
      using 1 by (subst login_iters.simps) (fastforce split: ctl.splits dest: login_body_Continue)
  next
    case False
    then show ?thesis by (subst login_iters.simps) simp
  qed
qed

lemma cleanup_body_cases:
  "(\<exists>w'. cleanup_body env ident badzip (i, w) = Break (i, w'))
   \<or> (\<exists>w'. cleanup_body env ident badzip (i, w) = Continue (i + 1, w'))"
  by (auto simp: cleanup_body_def py_truthy_invert split: prod.splits bool.splits)

lemma emit_fields [simp]:
  "df_dir (emit e w) = df_dir w"
  "download_dir (emit e w) = download_dir w"
  "browser (emit e w) = browser w"
  "trace (emit e w) = trace w @ [e]"
  by (simp_all add: emit_def)

lemma print_fields [simp]:
  "df_dir (print s w) = df_dir w"
  "download_dir (print s w) = download_dir w"
  "browser (print s w) = browser w"
  "trace (print s w) = trace w @ [Print s]"
  by (simp_all add: print_def)

lemma sleep_fields [simp]:
  "df_dir (sleep env n w) = df_dir w"
  "trace (sleep env n w) = trace w @ [Sleep n]"
  by (simp_all add: sleep_def split: prod.splits)

lemma driver_getD:
  "driver_get env url w = (r, w') \<Longrightarrow> df_dir w' = df_dir w \<and> trace w' = trace w @ [Get url]"
  by (auto simp: driver_get_def split: prod.splits)

lemma open_zipD: "open_zip name w = (r, w') \<Longrightarrow> w' = emit (OpenZip name) w"
  by (auto simp: open_zip_def)

lemma os_removeD:
  "os_remove name w = (r, w') \<Longrightarrow> df_dir w' = df_dir w \<and> trace w' = trace w @ [Remove name]"
  by (auto simp: os_remove_def split: option.splits)

lemma to_csv_fields [simp]:
  "df_dir (to_csv env name t w) = AList.update name (csv_text env t) (df_dir w)"
  "download_dir (to_csv env name t w) = download_dir w"
  "trace (to_csv env name t w) = trace w @ [WriteCsv name]"
  by (simp_all add: to_csv_def)

lemma extract_body_locals:
  "extract_body env ident (i, b, df, w) = Continue (i2, b2, df2, w2)
     \<Longrightarrow> df2 = df \<and> ((b2 = b \<and> i2 = Suc i) \<or> (b2 \<and> i2 = tries))"
  "extract_body env ident (i, b, df, w) = Break (i2, b2, df2, w2) \<Longrightarrow> b2 = b \<and> df2 \<noteq> None \<and> i2 = i"
  "extract_body env ident (i, b, df, w) = Raise e (i2, b2, df2, w2) \<Longrightarrow> b2 = b \<and> df2 = df \<and> i2 = i"
  by (auto simp: extract_body_def
           split: prod.splits opened.splits option.splits member.splits sum.splits)

text \<open>
  The flag and the frame exclude each other: from the initial locals of the worker the
  loop never ends with \<^verbatim>\<open>badzip\<close> set and \<^verbatim>\<open>df\<close> bound.
\<close>

lemma extract_loop_badzip_unbound:
  "extract_loop env ident (i, b, df, w) = (r, (i', b', df', w'))
     \<Longrightarrow> df = None \<Longrightarrow> \<not> b \<or> tries \<le> i
     \<Longrightarrow> (b' \<longrightarrow> df' = None \<and> r = None) \<and> (df' \<noteq> None \<longrightarrow> r = None)"
proof (induction env ident "(i, b, df, w)" arbitrary: i b df w rule: extract_loop.induct)
  case (1 env ident)
  show ?case
  proof (cases "i < tries")
    case True
    show ?thesis
    proof (cases "extract_body env ident (i, b, df, w)")
      case (Break s')
      obtain i2 b2 df2 w2 where s': "s' = (i2, b2, df2, w2)" by (cases s') auto
      from 1(2) True Break s' have "(r, (i', b', df', w')) = (None, (i2, b2, df2, w2))"
        by (subst (asm) extract_loop.simps) simp
      with extract_body_locals(2) [of env ident i b df w i2 b2 df2 w2] Break s' 1(4) True
      show ?thesis by auto
    next
      case (Continue s')
      obtain i2 b2 df2 w2 where s': "s' = (i2, b2, df2, w2)" by (cases s') auto
      from 1(2) True Continue s'
      have loop: "extract_loop env ident (i2, b2, df2, w2) = (r, (i', b', df', w'))"
        by (subst (asm) extract_loop.simps) simp
      from extract_body_locals(1) [of env ident i b df w i2 b2 df2 w2] Continue s' 1(3,4) True
      have "df2 = None" "\<not> b2 \<or> tries \<le> i2" by auto
      with 1(1) True Continue s' loop show ?thesis by simp
    next
      case (Raise e s')
      obtain i2 b2 df2 w2 where s': "s' = (i2, b2, df2, w2)" by (cases s') auto
      from 1(2) True Raise s' have "(r, (i', b', df', w')) = (Some e, (i2, b2, df2, w2))"
        by (subst (asm) extract_loop.simps) simp
      with extract_body_locals(3) [of env ident i b df w e i2 b2 df2 w2] Raise s' 1(3,4) True
      show ?thesis by auto
    qed
  next
    case False
    with 1(2-) show ?thesis by (subst (asm) extract_loop.simps) auto
  qed
qed

lemma fetch_loop_rel:
  assumes refl: "\<And>s. R s s" and trans: "\<And>a b c. R a b \<Longrightarrow> R b c \<Longrightarrow> R a c"
    and step: "\<And>s. fst s < tries \<Longrightarrow> R s (ctl_state (fetch_body env durl ident s))"
  shows "R s (fetch_loop env durl ident s)"
  using step
proof (induction env durl ident s rule: fetch_loop.induct)
  case (1 env durl ident s)
  show ?case
  proof (cases "fst s < tries")
    case True
    note st = "1.prems" [OF True]
    show ?thesis
    proof (cases "fetch_body env durl ident s")
      case (Continue s')
      have "R s' (fetch_loop env durl ident s')"
        using "1.IH" [OF True Continue] "1.prems" by blast
      moreover have "R s s'" using st Continue by simp
      moreover have "fetch_loop env durl ident s = fetch_loop env durl ident s'"
        using True Continue by (subst fetch_loop.simps) simp
      ultimately show ?thesis using trans by metis
    qed (use True st in \<open>subst fetch_loop.simps, simp\<close>)+
  next
    case False
    then show ?thesis using refl by (subst fetch_loop.simps) simp
  qed
qed

lemma cleanup_loop_rel:
  assumes refl: "\<And>s. R s s" and trans: "\<And>a b c. R a b \<Longrightarrow> R b c \<Longrightarrow> R a c"
    and step: "\<And>s. fst s < tries \<Longrightarrow> R s (ctl_state (cleanup_body env ident badzip s))"
  shows "R s (cleanup_loop env ident badzip s)"
  using step
proof (induction env ident badzip s rule: cleanup_loop.induct)
  case (1 env ident badzip s)
  show ?case
  proof (cases "fst s < tries")
    case True
    note st = "1.prems" [OF True]
    show ?thesis
    proof (cases "cleanup_body env ident badzip s")
      case (Continue s')
      have "R s' (cleanup_loop env ident badzip s')"
        using "1.IH" [OF True Continue] "1.prems" by blast
      moreover have "R s s'" using st Continue by simp
      moreover have "cleanup_loop env ident badzip s = cleanup_loop env ident badzip s'"
        using True Continue by (subst cleanup_loop.simps) simp
      ultimately show ?thesis using trans by metis
    qed (use True st in \<open>subst cleanup_loop.simps, simp\<close>)+
  next
    case False
    then show ?thesis using refl by (subst cleanup_loop.simps) simp
  qed
qed

lemma extract_loop_rel:
  assumes refl: "\<And>s. R s s" and trans: "\<And>a b c. R a b \<Longrightarrow> R b c \<Longrightarrow> R a c"
    and step: "\<And>s. fst s < tries \<Longrightarrow> R s (ctl_state (extract_body env ident s))"
  shows "R s (snd (extract_loop env ident s))"
  using step
proof (induction env ident s rule: extract_loop.induct)
  case (1 env ident s)
  show ?case
  proof (cases "fst s < tries")
    case True
    note st = "1.prems" [OF True]
    show ?thesis
    proof (cases "extract_body env ident s")
      case (Continue s')
      have "R s' (snd (extract_loop env ident s'))"
        using "1.IH" [OF True Continue] "1.prems" by blast
      moreover have "R s s'" using st Continue by simp
      moreover have "extract_loop env ident s = extract_loop env ident s'"
        using True Continue by (subst extract_loop.simps) simp
      ultimately show ?thesis using trans by metis
    qed (use True st in \<open>subst extract_loop.simps, simp\<close>)+
  next
    case False
    then show ?thesis using refl by (subst extract_loop.simps) simp
  qed
qed

lemma login_loop_rel:
  assumes refl: "\<And>s. R s s" and trans: "\<And>a b c. R a b \<Longrightarrow> R b c \<Longrightarrow> R a c"
    and step: "\<And>s. fst s < tries \<Longrightarrow> R s (ctl_state (login_body env u p s))"
  shows "R s (login_loop env u p s)"
  using step
proof (induction env u p s rule: login_loop.induct)
  case (1 env u p s)
  show ?case
  proof (cases "fst s < tries")
    case True
    note st = "1.prems" [OF True]
    show ?thesis
    proof (cases "login_body env u p s")
      case (Continue s')
      have "R s' (login_loop env u p s')"
        using "1.IH" [OF True Continue] "1.prems" by blast
      moreover have "R s s'" using st Continue by simp
      moreover have "login_loop env u p s = login_loop env u p s'"
        using True Continue by (subst login_loop.simps) simp
      ultimately show ?thesis using trans by metis
    qed (use True st in \<open>subst login_loop.simps, simp\<close>)+
  next
    case False
    then show ?thesis using refl by (subst login_loop.simps) simp
  qed
qed

lemma fetch_loop_frame:
  "df_dir (snd (fetch_loop env durl ident s)) = df_dir (snd s)
   \<and> writes (trace (snd (fetch_loop env durl ident s))) = writes (trace (snd s))
   \<and> (\<forall>u. u \<noteq> durl @ ident @ ''.zip'' \<longrightarrow>
          count_list (gets (trace (snd (fetch_loop env durl ident s)))) u
            = count_list (gets (trace (snd s))) u)"
  by (rule fetch_loop_rel
        [where R = "\<lambda>a b. df_dir (snd b) = df_dir (snd a)
                      \<and> writes (trace (snd b)) = writes (trace (snd a))
                      \<and> (\<forall>u. u \<noteq> durl @ ident @ ''.zip'' \<longrightarrow>
                            count_list (gets (trace (snd b))) u = count_list (gets (trace (snd a))) u)"])
     (auto simp: fetch_body_def writes_def gets_def split: prod.splits bool.splits dest!: driver_getD)

lemma extract_loop_frame:
  "df_dir (snd (snd (snd (snd (extract_loop env ident s))))) = df_dir (snd (snd (snd s)))
   \<and> writes (trace (snd (snd (snd (snd (extract_loop env ident s)))))) = writes (trace (snd (snd (snd s))))
   \<and> gets (trace (snd (snd (snd (snd (extract_loop env ident s)))))) = gets (trace (snd (snd (snd s))))"
  by (rule extract_loop_rel
        [where R = "\<lambda>a b. df_dir (snd (snd (snd b))) = df_dir (snd (snd (snd a)))
                      \<and> writes (trace (snd (snd (snd b)))) = writes (trace (snd (snd (snd a))))
                      \<and> gets (trace (snd (snd (snd b)))) = gets (trace (snd (snd (snd a))))"])
     (auto simp: extract_body_def writes_def gets_def
           split: prod.splits opened.splits option.splits member.splits sum.splits dest!: open_zipD)

lemma cleanup_loop_frame:
  "df_dir (snd (cleanup_loop env ident badzip s)) = df_dir (snd s)
   \<and> writes (trace (snd (cleanup_loop env ident badzip s))) = writes (trace (snd s))
   \<and> gets (trace (snd (cleanup_loop env ident badzip s))) = gets (trace (snd s))"
  by (rule cleanup_loop_rel
        [where R = "\<lambda>a b. df_dir (snd b) = df_dir (snd a)
                      \<and> writes (trace (snd b)) = writes (trace (snd a))
                      \<and> gets (trace (snd b)) = gets (trace (snd a))"])
     (auto simp: cleanup_body_def writes_def gets_def split: prod.splits bool.splits if_splits dest!: os_removeD)

text \<open>What the worker does once the loop that opens the archive has ended.\<close>

lemma process_zip_after_extract:
  "extract_loop env ident (0, False, None, snd (fetch_loop env durl ident (0, w))) = (r, (i, b, df, w2))
     \<Longrightarrow> process_zip env durl ident w =
         (case r of
            Some e \<Rightarrow> (Inl e, w2)
          | None \<Rightarrow>
              (case df of
                 None \<Rightarrow> (Inl NameError, snd (cleanup_loop env ident b (0, w2)))
               | Some t \<Rightarrow> (Inr (), to_csv env (ident @ ''.csv'') t (snd (cleanup_loop env ident b (0, w2))))))"
  by (simp add: process_zip_def save_def py_truthy_invert split: option.splits)

text \<open>
  Claim C3. When the loop that opens the archive ends with the bad-archive flag set, the
  worker leaves the output directory as it found it and makes no call that writes a csv
  file: no output file is created or overwritten for the feeder.
\<close>

theorem corrupt_archive_writes_no_output:
  assumes "extract_loop env ident (0, False, None, snd (fetch_loop env durl ident (0, w)))
             = (r, (i, True, df, w2))"
  shows "df_dir (snd (process_zip env durl ident w)) = df_dir w
         \<and> writes (trace (snd (process_zip env durl ident w))) = writes (trace w)"
proof -
  from extract_loop_badzip_unbound [OF assms] have "df = None" "r = None" by simp_all
  moreover have "df_dir w2 = df_dir w \<and> writes (trace w2) = writes (trace w)"
    using extract_loop_frame [of env ident "(0, False, None, snd (fetch_loop env durl ident (0, w)))"]
          fetch_loop_frame [of env durl ident "(0, w)"] assms
    by simp
  ultimately show ?thesis
    using process_zip_after_extract [OF assms] cleanup_loop_frame [of env ident True "(0, w2)"]
    by simp
qed

theorem corrupt_archive_writes_no_output_witness:
  "fst (snd (snd (extract_loop (windows_AB A_first) ''A''
        (0, False, None,
         snd (fetch_loop (windows_AB A_first) data_url ''A''
                (0, empty_world\<lparr>df_dir := [(''A.csv'', ''old'')]\<rparr>))))))
   \<and> df_dir (snd (process_zip (windows_AB A_first) data_url ''A''
                     (empty_world\<lparr>df_dir := [(''A.csv'', ''old'')]\<rparr>))) = [(''A.csv'', ''old'')]"
proof -
  let ?w = "empty_world\<lparr>df_dir := [(''A.csv'', ''old'')]\<rparr>"
  let ?x = "extract_loop (windows_AB A_first) ''A''
              (0, False, None, snd (fetch_loop (windows_AB A_first) data_url ''A'' (0, ?w)))"
  have flag: "fst (snd (snd ?x))" by code_simp
  obtain r i b df w2 where "?x = (r, (i, b, df, w2))" by (cases ?x) auto
  with flag have "?x = (r, (i, True, df, w2))" by simp
  from corrupt_archive_writes_no_output [OF this] flag show ?thesis
    by (simp add: empty_world_def)
qed

lemma extract_body_Break_read:
  "extract_body env ident (i, b, df, w) = Break (i2, b2, df2, w2)
     \<Longrightarrow> \<exists>ms text t. map_of (download_dir w2) (ident @ ''.zip'') = Some (Zip ms)
           \<and> map_of ms (ident @ ''.csv'') = Some (Stored text)
           \<and> pd_read_csv env text = Inr t \<and> df2 = Some t"
  by (auto simp: extract_body_def open_zip_def
           split: prod.splits opened.splits option.splits member.splits sum.splits zipfile.splits)

lemma extract_loop_bound_read:
  "extract_loop env ident (i, b, df, w) = (r, (i', b', Some t, w')) \<Longrightarrow> df = None
     \<Longrightarrow> \<exists>ms text. map_of (download_dir w') (ident @ ''.zip'') = Some (Zip ms)
           \<and> map_of ms (ident @ ''.csv'') = Some (Stored text)
           \<and> pd_read_csv env text = Inr t"
proof (induction env ident "(i, b, df, w)" arbitrary: i b df w rule: extract_loop.induct)
  case (1 env ident)
  show ?case
  proof (cases "i < tries")
    case True
    show ?thesis
    proof (cases "extract_body env ident (i, b, df, w)")
      case (Break s')
      obtain i2 b2 df2 w2 where s': "s' = (i2, b2, df2, w2)" by (cases s') auto
      from 1(2) True Break s' have "(r, (i', b', Some t, w')) = (None, (i2, b2, df2, w2))"
        by (subst (asm) extract_loop.simps) simp
      with extract_body_Break_read [of env ident i b df w i2 b2 df2 w2] Break s'
      show ?thesis by auto
    next
      case (Continue s')
      obtain i2 b2 df2 w2 where s': "s' = (i2, b2, df2, w2)" by (cases s') auto
      from 1(2) True Continue s'
      have loop: "extract_loop env ident (i2, b2, df2, w2) = (r, (i', b', Some t, w'))"
        by (subst (asm) extract_loop.simps) simp
      from extract_body_locals(1) [of env ident i b df w i2 b2 df2 w2] Continue s' 1(3)
      have "df2 = None" by auto
      with 1(1) True Continue s' loop show ?thesis by simp
    next
      case (Raise e s')
      obtain i2 b2 df2 w2 where s': "s' = (i2, b2, df2, w2)" by (cases s') auto
      from 1(2) True Raise s' have "(r, (i', b', Some t, w')) = (Some e, (i2, b2, df2, w2))"
        by (subst (asm) extract_loop.simps) simp
      with extract_body_locals(3) [of env ident i b df w e i2 b2 df2 w2] Raise s' 1(3)
      show ?thesis by auto
    qed
  next
    case False
    with 1(2-) show ?thesis by (subst (asm) extract_loop.simps) auto
  qed
qed

lemma cleanup_loop_present:
  "map_of (download_dir w) (ident @ ''.zip'') \<noteq> None
     \<Longrightarrow> map_of (download_dir (snd (cleanup_loop env ident b (0, w)))) (ident @ ''.zip'') = None
         \<and> df_dir (snd (cleanup_loop env ident b (0, w))) = df_dir w
         \<and> removes (trace (snd (cleanup_loop env ident b (0, w)))) = removes (trace w) @ [ident @ ''.zip'']"
  by (subst cleanup_loop.simps, subst cleanup_loop.simps, subst cleanup_loop.simps)
     (auto simp: tries_def cleanup_body_def os_remove_def py_truthy_invert removes_def AList.delete_conv)

text \<open>
  Claim C5. When the loop that opens the archive of X ends with \<^verbatim>\<open>df\<close> bound (no
  exception, no bad archive), the archive was opened, its member \<^verbatim>\<open>X.csv\<close> held text that
  \<^verbatim>\<open>pd.read_csv\<close> parsed into the frame bound to \<^verbatim>\<open>df\<close>, the worker returns normally,
  \<^verbatim>\<open>X.csv\<close> is in the output directory with the text rendered for that frame, the archive
  is deleted by the one call to \<^verbatim>\<open>os.remove\<close>, and \<^verbatim>\<open>X.zip\<close> is no longer in the download
  directory.
\<close>

theorem successful_worker_saves_and_cleans:
  assumes "extract_loop env ident (0, False, None, snd (fetch_loop env durl ident (0, w)))
             = (None, (i, b, Some t, w2))"
  shows "fst (process_zip env durl ident w) = Inr ()
         \<and> map_of (df_dir (snd (process_zip env durl ident w))) (ident @ ''.csv'') = Some (csv_text env t)
         \<and> map_of (download_dir (snd (process_zip env durl ident w))) (ident @ ''.zip'') = None
         \<and> (\<exists>ms text. map_of (download_dir w2) (ident @ ''.zip'') = Some (Zip ms)
               \<and> map_of ms (ident @ ''.csv'') = Some (Stored text)
               \<and> text \<noteq> [] \<and> read_csv env text = Inr t)
         \<and> removes (trace (snd (process_zip env durl ident w))) = removes (trace w2) @ [ident @ ''.zip'']
         \<and> writes (trace (snd (process_zip env durl ident w))) = writes (trace w) @ [ident @ ''.csv'']"
proof -
  from extract_loop_bound_read [OF assms refl]
  obtain ms body where rd: "map_of (download_dir w2) (ident @ ''.zip'') = Some (Zip ms)"
    "map_of ms (ident @ ''.csv'') = Some (Stored body)" "pd_read_csv env body = Inr t"
    by blast
  from rd(3) have parsed: "body \<noteq> []" "read_csv env body = Inr t"
    by (auto simp: pd_read_csv_def split: if_splits)
  from rd(1) have present: "map_of (download_dir w2) (ident @ ''.zip'') \<noteq> None" by simp
  have w2: "writes (trace w2) = writes (trace w)"
    using extract_loop_frame [of env ident "(0, False, None, snd (fetch_loop env durl ident (0, w)))"]
          fetch_loop_frame [of env durl ident "(0, w)"] assms
    by simp
  have wr: "writes (trace (snd (cleanup_loop env ident b (0, w2)))) = writes (trace w)"
    using cleanup_loop_frame [of env ident b "(0, w2)"] w2 by simp
  show ?thesis
    using process_zip_after_extract [OF assms] cleanup_loop_present [OF present, of env b] rd parsed wr
    by (simp add: AList.update_conv' removes_def writes_def)
qed

theorem successful_worker_saves_and_cleans_witness:
  "fst (process_zip (windows_AB A_first) data_url ''B'' empty_world) = Inr ()
   \<and> map_of (df_dir (snd (process_zip (windows_AB A_first) data_url ''B'' empty_world))) ''B.csv''
       = Some (''hour,kw'' @ [CHR 0x0A] @ ''1,5'' @ [CHR 0x0A])
   \<and> map_of (download_dir (snd (process_zip (windows_AB A_first) data_url ''B'' empty_world))) ''B.zip''
       = None"
proof -
  let ?x = "extract_loop (windows_AB A_first) ''B''
              (0, False, None, snd (fetch_loop (windows_AB A_first) data_url ''B'' (0, empty_world)))"
  have 1: "fst ?x = None"
    and 2: "fst (snd (snd (snd ?x))) = Some [[''hour'', ''kw''], [''1'', ''5'']]" by code_simp+
  have 3: "csv_text (windows_AB A_first) [[''hour'', ''kw''], [''1'', ''5'']]
             = ''hour,kw'' @ [CHR 0x0A] @ ''1,5'' @ [CHR 0x0A]" by code_simp
  obtain r i b df w2 where "?x = (r, (i, b, df, w2))" by (cases ?x) auto
  with 1 2 have "?x = (None, (i, b, Some [[''hour'', ''kw''], [''1'', ''5'']], w2))" by simp
  from successful_worker_saves_and_cleans [OF this] 3 show ?thesis by simp
qed

text \<open>
  An archive whose member \<^verbatim>\<open>E.csv\<close> is empty, or has a row longer than its header, or
  cannot be inflated, is not a success: the exception of line 135 leaves the worker,
  nothing is written and the archive stays in the download directory.
\<close>

lemma unreadable_member_raises:
  "process_zip (windows_AB A_first) data_url ''E'' (world_with ''E.zip'' (Zip [(''E.csv'', Stored [])]))
     = (Inl EmptyDataError,
        print ''opened E'' (emit (OpenZip ''E.zip'') (print ''trying E''
          (snd (fetch_loop (windows_AB A_first) data_url ''E''
                  (0, world_with ''E.zip'' (Zip [(''E.csv'', Stored [])])))))))"
  "fst (process_zip (windows_AB A_first) data_url ''E''
          (world_with ''E.zip'' (Zip [(''E.csv'', Stored ''a,b'')]))) = Inr ()"
  "fst (process_zip (windows_AB A_first) data_url ''E''
          (world_with ''E.zip'' (Zip [(''E.csv'', Stored (''a'' @ [CHR 0x0A] @ ''1,2''))]))) = Inl ParserError"
  "fst (process_zip (windows_AB A_first) data_url ''E''
          (world_with ''E.zip'' (Zip [(''E.csv'', Garbled)]))) = Inl ZlibError"
  "df_dir (snd (process_zip (windows_AB A_first) data_url ''E''
          (world_with ''E.zip'' (Zip [(''E.csv'', Stored [])])))) = []"
  "map_of (download_dir (snd (process_zip (windows_AB A_first) data_url ''E''
          (world_with ''E.zip'' (Zip [(''E.csv'', Stored [])]))))) ''E.zip''
     = Some (Zip [(''E.csv'', Stored [])])"
  by code_simp+

lemma extract_loop_exhausted:
  "extract_loop env ident (i, b, df, w) = (None, (i', False, None, w'))
     \<Longrightarrow> df = None \<Longrightarrow> \<not> b \<Longrightarrow> i \<le> tries
     \<Longrightarrow> i' = tries \<and> extract_iters env ident (i, b, df, w) = tries - i"
proof (induction env ident "(i, b, df, w)" arbitrary: i b df w rule: extract_loop.induct)
  case (1 env ident)
  show ?case
  proof (cases "i < tries")
    case True
    show ?thesis
    proof (cases "extract_body env ident (i, b, df, w)")
      case (Break s')
      obtain i2 b2 df2 w2 where s': "s' = (i2, b2, df2, w2)" by (cases s') auto
      from 1(2) True Break s' have "(None, (i', False, None, w')) = (None :: py_exception option, (i2, b2, df2, w2))"
        by (subst (asm) extract_loop.simps) simp
      with extract_body_locals(2) [of env ident i b df w i2 b2 df2 w2] Break s'
      show ?thesis by auto
    next
      case (Continue s')
      obtain i2 b2 df2 w2 where s': "s' = (i2, b2, df2, w2)" by (cases s') auto
      from 1(2) True Continue s'
      have loop: "extract_loop env ident (i2, b2, df2, w2) = (None, (i', False, None, w'))"
        by (subst (asm) extract_loop.simps) simp
      from extract_body_locals(1) [of env ident i b df w i2 b2 df2 w2] Continue s' 1(3)
      have df2: "df2 = None" and alt: "(b2 = b \<and> i2 = Suc i) \<or> (b2 \<and> i2 = tries)" by auto
      have nb2: "\<not> b2"
      proof
        assume b2
        with alt 1(4) have "i2 = tries" by auto
        with loop have "(i2, b2, df2, w2) = (i', False, None, w')"
          by (subst (asm) extract_loop.simps) simp
        with \<open>b2\<close> show False by simp
      qed
      with alt 1(4) have i2: "i2 = Suc i" by auto
      from 1(1) True Continue s' loop df2 nb2 i2
      have "i' = tries \<and> extract_iters env ident (i2, b2, df2, w2) = tries - i2" by simp
      moreover have "extract_iters env ident (i, b, df, w) = 1 + extract_iters env ident (i2, b2, df2, w2)"
        using True Continue s' by (subst extract_iters.simps) simp
      ultimately show ?thesis using True i2 by simp
    next
      case (Raise e s')
      from 1(2) True Raise show ?thesis
        by (subst (asm) extract_loop.simps) simp
    qed
  next
    case False
    with 1(2-) show ?thesis
      by (subst (asm) extract_loop.simps, subst extract_iters.simps) auto
  qed
qed

text \<open>
  Claim C10. When the loop that opens the archive ends without a frame, without the
  bad-archive flag and without an exception (every one of its \<open>tries\<close> attempts found no
  file), the worker goes on to the save step and a \<^verbatim>\<open>NameError\<close> leaves it: the feeder is
  not skipped silently.
\<close>

theorem exhausted_extraction_raises_NameError:
  assumes "extract_loop env ident (0, False, None, snd (fetch_loop env durl ident (0, w)))
             = (None, (i, False, None, w2))"
  shows "fst (process_zip env durl ident w) = Inl NameError
         \<and> i = tries
         \<and> extract_iters env ident (0, False, None, snd (fetch_loop env durl ident (0, w))) = tries
         \<and> df_dir (snd (process_zip env durl ident w)) = df_dir w"
proof -
  have "df_dir w2 = df_dir w"
    using extract_loop_frame [of env ident "(0, False, None, snd (fetch_loop env durl ident (0, w)))"]
          fetch_loop_frame [of env durl ident "(0, w)"] assms
    by simp
  then show ?thesis
    using process_zip_after_extract [OF assms] extract_loop_exhausted [OF assms]
          cleanup_loop_frame [of env ident False "(0, w2)"]
    by simp
qed

theorem exhausted_extraction_raises_NameError_witness:
  "fst (process_zip (windows_AB A_first) data_url ''C'' empty_world) = Inl NameError
   \<and> extract_iters (windows_AB A_first) ''C''
        (0, False, None, snd (fetch_loop (windows_AB A_first) data_url ''C'' (0, empty_world))) = tries"
proof -
  let ?x = "extract_loop (windows_AB A_first) ''C''
              (0, False, None, snd (fetch_loop (windows_AB A_first) data_url ''C'' (0, empty_world)))"
  have 1: "fst ?x = None" and 2: "fst (snd (snd ?x)) = False" and 3: "fst (snd (snd (snd ?x))) = None"
    by code_simp+
  obtain r i b df w2 where "?x = (r, (i, b, df, w2))" by (cases ?x) auto
  with 1 2 3 have "?x = (None, (i, False, None, w2))" by simp
  from exhausted_extraction_raises_NameError [OF this] show ?thesis by simp
qed

text \<open>
  Claim C1 fails on the code. For a feeder whose archive is corrupt (A) and for one whose
  archive never arrives (C) the worker does not return: a \<^verbatim>\<open>NameError\<close> leaves it.
\<close>

theorem worker_raises_on_failed_feeder:
  "fst (process_zip (windows_AB A_first) data_url ''A'' empty_world) = Inl NameError
   \<and> fst (process_zip (windows_AB A_first) data_url ''C'' empty_world) = Inl NameError"
  by code_simp

text \<open>
  Claim C2 fails on the code. For the corrupt archive A the bad-archive flag is set, and
  the cleanup phase still calls \<^verbatim>\<open>os.remove\<close> on \<^verbatim>\<open>A.zip\<close> and deletes it; the save step is
  then entered and raises.
\<close>

theorem cleanup_deletes_corrupt_archive:
  "fst (snd (snd (extract_loop (windows_AB A_first) ''A''
        (0, False, None, snd (fetch_loop (windows_AB A_first) data_url ''A'' (0, empty_world))))))
   \<and> map_of (download_dir (snd (fetch_loop (windows_AB A_first) data_url ''A'' (0, empty_world)))) ''A.zip''
       = Some NotAZip
   \<and> removes (trace (snd (process_zip (windows_AB A_first) data_url ''A'' empty_world))) = [''A.zip'']
   \<and> download_dir (snd (process_zip (windows_AB A_first) data_url ''A'' empty_world)) = []
   \<and> fst (process_zip (windows_AB A_first) data_url ''A'' empty_world) = Inl NameError"
  by code_simp

text \<open>
  Claim C4 fails on the code. In the scenario "one corrupt archive" the \<^verbatim>\<open>NameError\<close> raised
  for A ends the run: the final report is never printed, whichever of A and B the set
  iterates first, and when A comes first B is never processed.
\<close>

theorem one_corrupt_archive_aborts_the_run:
  "fst (driver (windows_AB A_first) ''user'' ''secret'' [''A'', ''B''] empty_world) = Inl NameError
   \<and> df_dir (snd (driver (windows_AB A_first) ''user'' ''secret'' [''A'', ''B''] empty_world)) = []
   \<and> reports (trace (snd (driver (windows_AB A_first) ''user'' ''secret'' [''A'', ''B''] empty_world))) = []
   \<and> fst (driver (windows_AB B_first) ''user'' ''secret'' [''A'', ''B''] empty_world) = Inl NameError
   \<and> df_dir (snd (driver (windows_AB B_first) ''user'' ''secret'' [''A'', ''B''] empty_world))
       = [(''B.csv'', ''hour,kw'' @ [CHR 0x0A] @ ''1,5'' @ [CHR 0x0A])]
   \<and> reports (trace (snd (driver (windows_AB B_first) ''user'' ''secret'' [''A'', ''B''] empty_world))) = []"
  by code_simp

lemma extract_iters_pos: "fst s < tries \<Longrightarrow> 1 \<le> extract_iters env ident s"
  by (subst extract_iters.simps) (simp split: ctl.splits)

text \<open>
  Claim C7. In the loop that opens the archive, an attempt that meets a bad archive (a
  file that is no zip archive, or a damaged member) is the last one: the loop ends there
  with the flag set, after one more call to open the file and no sleep. An attempt that
  finds no file increments the counter, sleeps two seconds and goes round the loop again,
  which makes a second attempt when the bound allows; the attempts never exceed the bound.
\<close>

theorem bad_archive_ends_retrying:
  assumes "i < tries"
  shows
    "(map_of (download_dir wb) (ident @ ''.zip'') = Some NotAZip \<longrightarrow>
        extract_loop env ident (i, b, df, wb)
          = (None, (tries, True, df, emit (OpenZip (ident @ ''.zip'')) (print (''trying '' @ ident) wb)))
        \<and> extract_iters env ident (i, b, df, wb) = 1
        \<and> opens (trace (snd (snd (snd (snd (extract_loop env ident (i, b, df, wb)))))))
            = opens (trace wb) @ [ident @ ''.zip''])
     \<and> (map_of (download_dir wd) (ident @ ''.zip'') = Some (Zip ms) \<and> map_of ms (ident @ ''.csv'') = Some Damaged \<longrightarrow>
        extract_loop env ident (i, b, df, wd)
          = (None, (tries, True, df,
               print (''opened '' @ ident) (emit (OpenZip (ident @ ''.zip'')) (print (''trying '' @ ident) wd))))
        \<and> extract_iters env ident (i, b, df, wd) = 1)
     \<and> (map_of (download_dir wn) (ident @ ''.zip'') = None \<longrightarrow>
        extract_loop env ident (i, b, df, wn)
          = extract_loop env ident
              (Suc i, b, df, sleep env 2 (emit (OpenZip (ident @ ''.zip'')) (print (''trying '' @ ident) wn)))
        \<and> extract_iters env ident (i, b, df, wn)
          = 1 + extract_iters env ident
              (Suc i, b, df, sleep env 2 (emit (OpenZip (ident @ ''.zip'')) (print (''trying '' @ ident) wn)))
        \<and> (Suc i < tries \<longrightarrow> 2 \<le> extract_iters env ident (i, b, df, wn)))
     \<and> extract_iters env ident (i, b, df, w) \<le> tries - i"
proof (intro conjI impI)
  assume bad: "map_of (download_dir wb) (ident @ ''.zip'') = Some NotAZip"
  then have body: "extract_body env ident (i, b, df, wb)
      = Continue (tries, True, df, emit (OpenZip (ident @ ''.zip'')) (print (''trying '' @ ident) wb))"
    by (simp add: extract_body_def open_zip_def)
  show loop: "extract_loop env ident (i, b, df, wb)
          = (None, (tries, True, df, emit (OpenZip (ident @ ''.zip'')) (print (''trying '' @ ident) wb)))"
    using assms body by (subst extract_loop.simps, simp, subst extract_loop.simps, simp)
  show "extract_iters env ident (i, b, df, wb) = 1"
    using assms body by (subst extract_iters.simps, simp, subst extract_iters.simps, simp)
  show "opens (trace (snd (snd (snd (snd (extract_loop env ident (i, b, df, wb)))))))
          = opens (trace wb) @ [ident @ ''.zip'']"
    using loop by (simp add: opens_def)
next
  assume "map_of (download_dir wd) (ident @ ''.zip'') = Some (Zip ms) \<and> map_of ms (ident @ ''.csv'') = Some Damaged"
  then have body: "extract_body env ident (i, b, df, wd)
      = Continue (tries, True, df,
          print (''opened '' @ ident) (emit (OpenZip (ident @ ''.zip'')) (print (''trying '' @ ident) wd)))"
    by (simp add: extract_body_def open_zip_def)
  show "extract_loop env ident (i, b, df, wd)
          = (None, (tries, True, df,
               print (''opened '' @ ident) (emit (OpenZip (ident @ ''.zip'')) (print (''trying '' @ ident) wd))))"
    using assms body by (subst extract_loop.simps, simp, subst extract_loop.simps, simp)
  show "extract_iters env ident (i, b, df, wd) = 1"
    using assms body by (subst extract_iters.simps, simp, subst extract_iters.simps, simp)
next
  assume "map_of (download_dir wn) (ident @ ''.zip'') = None"
  then have body: "extract_body env ident (i, b, df, wn)
      = Continue (Suc i, b, df, sleep env 2 (emit (OpenZip (ident @ ''.zip'')) (print (''trying '' @ ident) wn)))"
    by (simp add: extract_body_def open_zip_def)
  show "extract_loop env ident (i, b, df, wn)
          = extract_loop env ident
              (Suc i, b, df, sleep env 2 (emit (OpenZip (ident @ ''.zip'')) (print (''trying '' @ ident) wn)))"
    using assms body by (subst extract_loop.simps) simp
  show it: "extract_iters env ident (i, b, df, wn)
          = 1 + extract_iters env ident
              (Suc i, b, df, sleep env 2 (emit (OpenZip (ident @ ''.zip'')) (print (''trying '' @ ident) wn)))"
    using assms body by (subst extract_iters.simps) simp
  assume "Suc i < tries"
  then show "2 \<le> extract_iters env ident (i, b, df, wn)"
    using it extract_iters_pos [of "(Suc i, b, df, sleep env 2 (emit (OpenZip (ident @ ''.zip'')) (print (''trying '' @ ident) wn)))" env ident]
    by simp
next
  show "extract_iters env ident (i, b, df, w) \<le> tries - i"
    using extract_iters_le [of env ident "(i, b, df, w)"] by simp
qed

theorem bad_archive_ends_retrying_witness:
  "extract_loop (windows_AB A_first) ''A'' (0, False, None, world_with ''A.zip'' NotAZip)
     = (None, (tries, True, None,
          emit (OpenZip ''A.zip'') (print ''trying A'' (world_with ''A.zip'' NotAZip))))
   \<and> extract_iters (windows_AB A_first) ''A'' (0, False, None, world_with ''A.zip'' NotAZip) = 1
   \<and> opens (trace (snd (snd (snd (snd (extract_loop (windows_AB A_first) ''A''
                                           (0, False, None, world_with ''A.zip'' NotAZip)))))))
       = [''A.zip'']
   \<and> extract_iters (windows_AB A_first) ''A''
        (0, False, None, world_with ''A.zip'' (Zip [(''A.csv'', Damaged)])) = 1
   \<and> 2 \<le> extract_iters (windows_AB A_first) ''A'' (0, False, None, empty_world)
   \<and> extract_iters (windows_AB A_first) ''A'' (0, False, None, empty_world) \<le> tries"
  using bad_archive_ends_retrying
    [of 0 "world_with ''A.zip'' NotAZip" "''A''" "windows_AB A_first" False None
        "world_with ''A.zip'' (Zip [(''A.csv'', Damaged)])" "[(''A.csv'', Damaged)]"
        empty_world empty_world]
  by (simp add: tries_def world_with_def empty_world_def opens_def)

lemma login_iters_Break:
  "fst s < tries \<Longrightarrow> login_body env u p s = Break s'
     \<Longrightarrow> login_loop env u p s = s' \<and> login_iters env u p s = 1"
  by (subst login_loop.simps, subst login_iters.simps) simp

lemma str_replace_prefix: "old \<noteq> [] \<Longrightarrow> str_replace old new (old @ s) = new @ str_replace old new s"
  by (subst str_replace.simps) simp

lemma str_replace_absent: "\<not> str_contains old s \<Longrightarrow> str_replace old new s = s"
proof (induction s)
  case Nil
  then show ?case by (subst str_replace.simps) simp
next
  case (Cons c cs)
  then have "old \<noteq> []" "take (length old) (c # cs) \<noteq> old" "str_replace old new cs = cs" by auto
  then show ?case by (subst str_replace.simps) simp
qed

lemma not_contains_char: "c \<in> set old \<Longrightarrow> c \<notin> set s \<Longrightarrow> \<not> str_contains old s"
proof (induction s)
  case Nil
  then show ?case by auto
next
  case (Cons a s)
  have "take (length old) (a # s) \<noteq> old"
  proof
    assume "take (length old) (a # s) = old"
    then have "set old \<subseteq> set (a # s)" by (metis set_take_subset)
    with Cons.prems show False by auto
  qed
  with Cons show ?case by simp
qed

lemma take_csv_straddle:
  "take (length ''.csv'') (c # cs) \<noteq> ''.csv''
     \<Longrightarrow> take (length ''.csv'') ((c # cs) @ ''.csv'') \<noteq> ''.csv''"
  apply (cases cs; simp)
  subgoal for a as
    apply (cases as; simp)
    subgoal for b bs
      by (cases bs; simp)
    done
  done

lemma strip_csv: "\<not> str_contains ''.csv'' s \<Longrightarrow> str_replace ''.csv'' [] (s @ ''.csv'') = s"
proof (induction s)
  case Nil
  show ?case by (subst str_replace.simps, simp, subst str_replace.simps, simp)
next
  case (Cons c cs)
  then have "take (length ''.csv'') (c # cs) \<noteq> ''.csv''" and ih: "str_replace ''.csv'' [] (cs @ ''.csv'') = cs" by auto
  from take_csv_straddle [OF this(1)] ih show ?case by (subst str_replace.simps) auto
qed

lemma fnmatch_csv_plain: "plain_id ident \<Longrightarrow> fnmatch_csv (ident @ ''.csv'')"
  by (cases ident) (auto simp: plain_id_def fnmatch_csv_def)

lemma scan_plain:
  assumes "plain_id ident"
  shows "str_replace ''.csv'' [] (str_replace (cwd @ [CHR 0x5C]) [] (cwd @ [CHR 0x5C] @ ident @ ''.csv'')) = ident"
proof -
  have "\<not> str_contains (cwd @ [CHR 0x5C]) (ident @ ''.csv'')"
    using assms by (intro not_contains_char [of "CHR 0x5C"]) (auto simp: plain_id_def)
  then have "str_replace (cwd @ [CHR 0x5C]) [] (cwd @ [CHR 0x5C] @ ident @ ''.csv'') = ident @ ''.csv''"
    using str_replace_prefix [of "cwd @ [CHR 0x5C]" "[]" "ident @ ''.csv''"] str_replace_absent
    by simp
  then show ?thesis using assms strip_csv by (simp add: plain_id_def)
qed

lemma get_csv_list_plain:
  assumes "os_sep env = [CHR 0x5C]" and "plain_id ident" and "map_of (df_dir w) (ident @ ''.csv'') = Some t"
    and "\<not> has_magic (getcwd env)" and "\<not> ends_in_separator (getcwd env)"
  shows "ident \<in> set (get_csv_list env w)"
proof -
  from assms(3) have "ident @ ''.csv'' \<in> set (map fst (df_dir w))"
    by (metis map_of_SomeD fst_conv image_eqI set_map)
  with fnmatch_csv_plain [OF assms(2)]
  have "getcwd env @ [CHR 0x5C] @ ident @ ''.csv'' \<in> set (glob_csv env w)"
    by (auto simp: glob_csv_def assms(1,4,5))
  then have "str_replace ''.csv'' [] (str_replace (getcwd env @ [CHR 0x5C]) [] (getcwd env @ [CHR 0x5C] @ ident @ ''.csv''))
               \<in> set (get_csv_list env w)"
    by (auto simp: get_csv_list_def)
  with scan_plain [OF assms(2)] show ?thesis by simp
qed

lemma set_csvs_missing:
  "set (csvs_missing env feeder_id_list w) = set feeder_id_list - set (get_csv_list env w)"
  by (auto simp: csvs_missing_def set_difference_list_def)

lemma find_elementD: "find_element env l w = (r, w') \<Longrightarrow> w' = emit (Find l) w"
  by (auto simp: find_element_def)

lemma send_keys_fields [simp]:
  "df_dir (send_keys env l s w) = df_dir w"
  "download_dir (send_keys env l s w) = download_dir w"
  "trace (send_keys env l s w) = trace w @ [SendKeys l s]"
  by (simp_all add: send_keys_def)

lemma click_fields [simp]:
  "df_dir (click env l w) = df_dir w"
  "download_dir (click env l w) = download_dir w"
  "trace (click env l w) = trace w @ [Click l]"
  by (simp_all add: click_def)

lemma login_loop_frame:
  "df_dir (snd (login_loop env u p s)) = df_dir (snd s)
   \<and> gets (trace (snd (login_loop env u p s))) = gets (trace (snd s))"
  by (rule login_loop_rel
        [where R = "\<lambda>a b. df_dir (snd b) = df_dir (snd a)
                      \<and> gets (trace (snd b)) = gets (trace (snd a))"])
     (auto simp: login_body_def gets_def split: prod.splits bool.splits dest!: find_elementD)

lemma login_frame:
  "df_dir (snd (login env lurl u p w)) = df_dir w
   \<and> (x \<noteq> lurl \<longrightarrow> count_list (gets (trace (snd (login env lurl u p w)))) x = count_list (gets (trace w)) x)"
proof (cases "driver_get env lurl w")
  case (Pair raised w1)
  from driver_getD [OF Pair] have w1: "df_dir w1 = df_dir w" "trace w1 = trace w @ [Get lurl]" by simp_all
  show ?thesis
  proof (cases raised)
    case True
    with Pair w1 show ?thesis by (simp add: login_def gets_def)
  next
    case False
    with Pair w1 login_loop_frame [of env u p "(0, sleep env 2 w1)"] show ?thesis
      by (simp add: login_def gets_def)
  qed
qed

lemma fetch_loop_gets_mono:
  "count_list (gets (trace (snd s))) x \<le> count_list (gets (trace (snd (fetch_loop env durl ident s)))) x"
  by (rule fetch_loop_rel
        [where R = "\<lambda>a b. count_list (gets (trace (snd a))) x \<le> count_list (gets (trace (snd b))) x"])
     (auto simp: fetch_body_def gets_def split: prod.splits bool.splits dest!: driver_getD)

lemma fetch_loop_own_get:
  "count_list (gets (trace w)) (durl @ ident @ ''.zip'')
     < count_list (gets (trace (snd (fetch_loop env durl ident (0, w))))) (durl @ ident @ ''.zip'')"
proof (cases "driver_get env (durl @ ident @ ''.zip'') w")
  case (Pair raised w1)
  from driver_getD [OF Pair] have w1: "trace w1 = trace w @ [Get (durl @ ident @ ''.zip'')]" by simp
  show ?thesis
  proof (cases raised)
    case True
    with Pair have "fetch_loop env durl ident (0, w)
        = fetch_loop env durl ident (1, sleep env 1 (print ''no such window...'' w1))"
      by (subst fetch_loop.simps) (simp add: tries_def fetch_body_def)
    with fetch_loop_gets_mono [of "(1, sleep env 1 (print ''no such window...'' w1))" "durl @ ident @ ''.zip''" env durl ident] w1
    show ?thesis by (simp add: gets_def)
  next
    case False
    with Pair have "fetch_loop env durl ident (0, w) = (0, print (''downloaded '' @ ident) w1)"
      by (subst fetch_loop.simps) (simp add: tries_def fetch_body_def)
    with w1 show ?thesis by (simp add: gets_def)
  qed
qed

lemma process_zip_gets:
  "gets (trace (snd (process_zip env durl ident w))) = gets (trace (snd (fetch_loop env durl ident (0, w))))"
proof -
  obtain r i b df w2 where eq:
    "extract_loop env ident (0, False, None, snd (fetch_loop env durl ident (0, w))) = (r, (i, b, df, w2))"
    by (cases "extract_loop env ident (0, False, None, snd (fetch_loop env durl ident (0, w)))") auto
  have "gets (trace w2) = gets (trace (snd (fetch_loop env durl ident (0, w))))"
    using extract_loop_frame [of env ident "(0, False, None, snd (fetch_loop env durl ident (0, w)))"] eq
    by simp
  then show ?thesis
    using process_zip_after_extract [OF eq] cleanup_loop_frame [of env ident b "(0, w2)"]
    by (simp add: gets_def split: option.splits)
qed

lemma process_zip_other:
  "x \<noteq> durl @ ident @ ''.zip''
     \<Longrightarrow> count_list (gets (trace (snd (process_zip env durl ident w)))) x = count_list (gets (trace w)) x"
  using fetch_loop_frame [of env durl ident "(0, w)"] by (simp add: process_zip_gets)

lemma process_zip_own:
  "count_list (gets (trace w)) (durl @ ident @ ''.zip'')
     < count_list (gets (trace (snd (process_zip env durl ident w)))) (durl @ ident @ ''.zip'')"
  using fetch_loop_own_get [of w durl ident env] by (simp add: process_zip_gets)

lemma process_zip_mono:
  "count_list (gets (trace w)) x \<le> count_list (gets (trace (snd (process_zip env durl ident w)))) x"
  using process_zip_own [of w durl ident env] process_zip_other [of x durl ident env w]
  by (cases "x = durl @ ident @ ''.zip''") simp_all

lemma process_all_other:
  "(\<And>m. m \<in> set ids \<Longrightarrow> x \<noteq> data_url @ m @ ''.zip'')
     \<Longrightarrow> count_list (gets (trace (snd (process_all env ids w)))) x = count_list (gets (trace w)) x"
proof (induction ids arbitrary: w)
  case Nil
  then show ?case by simp
next
  case (Cons a ids)
  have a: "count_list (gets (trace (snd (process_zip env data_url a (print a w))))) x = count_list (gets (trace w)) x"
    using process_zip_other [of x data_url a env "print a w"] Cons.prems [of a] by (simp add: gets_def)
  show ?case
  proof (cases "process_zip env data_url a (print a w)")
    case (Pair res w1)
    with a Cons.IH [of w1] Cons.prems show ?thesis by (cases res) auto
  qed
qed

lemma process_all_mono:
  "count_list (gets (trace w)) x \<le> count_list (gets (trace (snd (process_all env ids w)))) x"
proof (induction ids arbitrary: w)
  case Nil
  then show ?case by simp
next
  case (Cons a ids)
  have a: "count_list (gets (trace w)) x \<le> count_list (gets (trace (snd (process_zip env data_url a (print a w))))) x"
    using process_zip_mono [of "print a w" x env data_url a] by (simp add: gets_def)
  show ?case
  proof (cases "process_zip env data_url a (print a w)")
    case (Pair res w1)
    with a Cons.IH [of w1] show ?thesis by (cases res) (auto intro: order_trans)
  qed
qed

lemma process_all_visits:
  "fst (process_all env ids w) = Inr () \<Longrightarrow> m \<in> set ids
     \<Longrightarrow> count_list (gets (trace w)) (data_url @ m @ ''.zip'')
           < count_list (gets (trace (snd (process_all env ids w)))) (data_url @ m @ ''.zip'')"
proof (induction ids arbitrary: w)
  case Nil
  then show ?case by simp
next
  case (Cons a ids)
  obtain res w1 where pz: "process_zip env data_url a (print a w) = (res, w1)"
    by (cases "process_zip env data_url a (print a w)") auto
  with Cons.prems(1) obtain v where res: "res = Inr v" and rest: "fst (process_all env ids w1) = Inr ()"
    by (cases res) auto
  have all: "process_all env (a # ids) w = process_all env ids w1" using pz res by simp
  have le: "count_list (gets (trace w)) (data_url @ m @ ''.zip'') \<le> count_list (gets (trace w1)) (data_url @ m @ ''.zip'')"
    using process_zip_mono [of "print a w" "data_url @ m @ ''.zip''" env data_url a] pz by (simp add: gets_def)
  show ?case
  proof (cases "m = a")
    case True
    have "count_list (gets (trace w)) (data_url @ a @ ''.zip'') < count_list (gets (trace w1)) (data_url @ a @ ''.zip'')"
      using process_zip_own [of "print a w" data_url a env] pz by (simp add: gets_def)
    with process_all_mono [of w1 "data_url @ a @ ''.zip''" env ids] True all show ?thesis by simp
  next
    case False
    with Cons.prems(2) have "m \<in> set ids" by simp
    from Cons.IH [OF rest this] le all show ?thesis by simp
  qed
qed

lemma csvs_missing_cong: "df_dir w1 = df_dir w \<Longrightarrow> csvs_missing env fids w1 = csvs_missing env fids w"
  by (simp add: csvs_missing_def get_csv_list_def glob_csv_def)

lemma archive_url_not_login: "data_url @ m @ ''.zip'' \<noteq> login_url"
  by (simp add: data_url_def login_url_def)

lemma driver_other:
  assumes "x \<noteq> login_url" and "\<And>m. m \<in> set (csvs_missing env fids w) \<Longrightarrow> x \<noteq> data_url @ m @ ''.zip''"
  shows "count_list (gets (trace (snd (driver env u p fids w)))) x = count_list (gets (trace w)) x"
proof -
  obtain res w1 where lg: "login env login_url u p w = (res, w1)"
    by (cases "login env login_url u p w") auto
  from login_frame [of env login_url u p w x] lg assms(1)
  have w1: "df_dir w1 = df_dir w" "count_list (gets (trace w1)) x = count_list (gets (trace w)) x" by simp_all
  have miss: "csvs_missing env fids w1 = csvs_missing env fids w" using w1(1) by (rule csvs_missing_cong)
  show ?thesis
  proof (cases res)
    case (Inl e)
    with lg w1 show ?thesis by (simp add: driver_def)
  next
    case (Inr v)
    let ?w = "print (''retrieving '' @ str_nat (length (csvs_missing env fids w)) @ '' feeder IDs'') w1"
    obtain res2 w2 where pa: "process_all env (csvs_missing env fids w) ?w = (res2, w2)"
      by (cases "process_all env (csvs_missing env fids w) ?w") auto
    have "count_list (gets (trace w2)) x = count_list (gets (trace ?w)) x"
      using process_all_other [of "csvs_missing env fids w" x env ?w] assms(2) pa by simp
    then have w2: "count_list (gets (trace w2)) x = count_list (gets (trace w)) x"
      using w1 by (simp add: gets_def)
    from lg Inr miss pa w2 show ?thesis
      by (cases res2) (simp_all add: driver_def gets_def)
  qed
qed

lemma driver_visits:
  assumes "fst (driver env u p fids w) = Inr ()" and "m \<in> set (csvs_missing env fids w)"
  shows "count_list (gets (trace w)) (data_url @ m @ ''.zip'')
           < count_list (gets (trace (snd (driver env u p fids w)))) (data_url @ m @ ''.zip'')"
proof -
  let ?x = "data_url @ m @ ''.zip''"
  obtain res w1 where lg: "login env login_url u p w = (res, w1)"
    by (cases "login env login_url u p w") auto
  from login_frame [of env login_url u p w ?x] lg archive_url_not_login [of m]
  have w1: "df_dir w1 = df_dir w" "count_list (gets (trace w1)) ?x = count_list (gets (trace w)) ?x" by simp_all
  have miss: "csvs_missing env fids w1 = csvs_missing env fids w" using w1(1) by (rule csvs_missing_cong)
  from assms(1) lg obtain v where res: "res = Inr v" by (cases res) (auto simp: driver_def)
  let ?w = "print (''retrieving '' @ str_nat (length (csvs_missing env fids w)) @ '' feeder IDs'') w1"
  obtain res2 w2 where pa: "process_all env (csvs_missing env fids w) ?w = (res2, w2)"
    by (cases "process_all env (csvs_missing env fids w) ?w") auto
  from assms(1) lg res miss pa obtain v2 where res2: "res2 = Inr v2"
    by (cases res2) (auto simp: driver_def)
  have "count_list (gets (trace ?w)) ?x < count_list (gets (trace w2)) ?x"
    using process_all_visits [of env "csvs_missing env fids w" ?w m] pa res2 assms(2) by simp
  then have "count_list (gets (trace w)) ?x < count_list (gets (trace w2)) ?x"
    using w1 by (simp add: gets_def)
  with lg res miss pa res2 show ?thesis by (simp add: driver_def gets_def)
qed

text \<open>
  Where the scanner is right. On a platform that joins paths with a backslash, in a
  current directory whose name holds no wildcard character and is not a root, take a file
  \<^verbatim>\<open><id>.csv\<close> of the output directory whose identifier is plain (not empty, no leading
  dot, no backslash, no \<^verbatim>\<open>.csv\<close> inside). The scanner's result contains the bare
  identifier; the driver's list of missing feeders holds exactly the identifiers of the
  universe that the scanner did not return, so not this one; a pass of the driver never
  navigates to this feeder's archive, and a pass that ends without an exception has
  navigated to the archive of every missing feeder.
\<close>

lemma present_feeders_are_not_fetched_again:
  assumes "os_sep env = [CHR 0x5C]" and "plain_id ident"
    and "map_of (df_dir w) (ident @ ''.csv'') = Some t"
    and "\<not> has_magic (getcwd env)" and "\<not> ends_in_separator (getcwd env)"
  shows
    "ident \<in> set (get_csv_list env w)
     \<and> set (csvs_missing env fids w) = set fids - set (get_csv_list env w)
     \<and> ident \<notin> set (csvs_missing env fids w)
     \<and> count_list (gets (trace (snd (driver env u p fids w)))) (data_url @ ident @ ''.zip'')
         = count_list (gets (trace w)) (data_url @ ident @ ''.zip'')
     \<and> (fst (driver env u p fids w) = Inr () \<longrightarrow>
          (\<forall>m \<in> set (csvs_missing env fids w).
             count_list (gets (trace w)) (data_url @ m @ ''.zip'')
               < count_list (gets (trace (snd (driver env u p fids w)))) (data_url @ m @ ''.zip'')))"
proof -
  have scanned: "ident \<in> set (get_csv_list env w)" using assms by (rule get_csv_list_plain)
  then have absent: "ident \<notin> set (csvs_missing env fids w)" by (simp add: set_csvs_missing)
  have "count_list (gets (trace (snd (driver env u p fids w)))) (data_url @ ident @ ''.zip'')
          = count_list (gets (trace w)) (data_url @ ident @ ''.zip'')"
    using absent by (intro driver_other archive_url_not_login) auto
  with scanned absent show ?thesis
    using driver_visits [of env u p fids w] by (simp add: set_csvs_missing)
qed

lemma present_feeders_are_not_fetched_again_example:
  "''D'' \<in> set (get_csv_list (windows_AB A_first) (world_holding [(''D.csv'', ''old'')]))
   \<and> csvs_missing (windows_AB A_first) [''B'', ''D''] (world_holding [(''D.csv'', ''old'')]) = [''B'']
   \<and> fst (driver (windows_AB A_first) ''user'' ''secret'' [''B'', ''D''] (world_holding [(''D.csv'', ''old'')])) = Inr ()
   \<and> count_list (gets (trace (snd (driver (windows_AB A_first) ''user'' ''secret'' [''B'', ''D'']
                                      (world_holding [(''D.csv'', ''old'')])))))
        (data_url @ ''D.zip'') = 0
   \<and> 0 < count_list (gets (trace (snd (driver (windows_AB A_first) ''user'' ''secret'' [''B'', ''D'']
                                      (world_holding [(''D.csv'', ''old'')])))))
            (data_url @ ''B.zip'')"
proof -
  let ?e = "windows_AB A_first"
  let ?w = "world_holding [(''D.csv'', ''old'')]"
  have 1: "os_sep ?e = [CHR 0x5C]" by (simp add: windows_AB_def lab_env_def)
  have 2: "plain_id ''D''" by (simp add: plain_id_def)
  have 3: "map_of (df_dir ?w) (''D'' @ ''.csv'') = Some ''old''"
    by (simp add: world_holding_def empty_world_def)
  have 4: "csvs_missing ?e [''B'', ''D''] ?w = [''B'']" by code_simp
  have 5: "fst (driver ?e ''user'' ''secret'' [''B'', ''D''] ?w) = Inr ()" by code_simp
  have 6: "gets (trace ?w) = []" by (simp add: world_holding_def empty_world_def gets_def)
  have 7: "\<not> has_magic (getcwd ?e)" and 8: "\<not> ends_in_separator (getcwd ?e)" by code_simp+
  from present_feeders_are_not_fetched_again
         [OF 1 2 3 7 8, of "[''B'', ''D'']" "''user''" "''secret''"] 4 5 6
  show ?thesis by simp
qed

text \<open>
  Claim C6 fails on the code. Where the separator is a slash the scanner returns the path
  \<^verbatim>\<open>/home/ica/B\<close> for \<^verbatim>\<open>B.csv\<close>, not \<^verbatim>\<open>B\<close>: B is listed as missing and a pass navigates
  to its archive again although \<^verbatim>\<open>B.csv\<close> is there. And the identifier \<^verbatim>\<open>x.csvy\<close>, saved as
  \<^verbatim>\<open>x.csvy.csv\<close>, is scanned as \<^verbatim>\<open>xy\<close>.
\<close>

theorem scanner_result_is_not_always_the_identifier:
  "get_csv_list posix_AB (world_holding [(''B.csv'', ''hour,kw'')]) = [''/home/ica/B'']
   \<and> csvs_missing posix_AB [''A'', ''B''] (world_holding [(''B.csv'', ''hour,kw'')]) = [''A'', ''B'']
   \<and> gets (trace (snd (driver posix_AB ''user'' ''secret'' [''B''] (world_holding [(''B.csv'', ''hour,kw'')]))))
       = [login_url, data_url @ ''B.zip'']
   \<and> get_csv_list (windows_AB A_first) (world_holding [(''x.csvy.csv'', ''t'')]) = [''xy'']"
  by code_simp

text \<open>
  The counters are the loops' own: when every pass through a body makes a measure \<open>f\<close>
  of the state grow by one, the loop makes it grow by the number of passes counted.
\<close>

lemma fetch_loop_count:
  assumes step: "\<And>s. fst s < tries \<Longrightarrow> f (ctl_state (fetch_body env durl ident s)) = Suc (f s)"
  shows "f (fetch_loop env durl ident s) = f s + fetch_iters env durl ident s"
  using step
proof (induction env durl ident s rule: fetch_loop.induct)
  case (1 env durl ident s)
  show ?case
  proof (cases "fst s < tries")
    case True
    note st = "1.prems" [OF True]
    show ?thesis
    proof (cases "fetch_body env durl ident s")
      case (Continue s')
      have "f (fetch_loop env durl ident s') = f s' + fetch_iters env durl ident s'"
        using "1.IH" [OF True Continue] "1.prems" by blast
      moreover have "f s' = Suc (f s)" using st Continue by simp
      moreover have "fetch_loop env durl ident s = fetch_loop env durl ident s'"
        using True Continue by (subst fetch_loop.simps) simp
      moreover have "fetch_iters env durl ident s = 1 + fetch_iters env durl ident s'"
        using True Continue by (subst fetch_iters.simps) simp
      ultimately show ?thesis by simp
    qed (use True st in \<open>subst fetch_loop.simps, subst fetch_iters.simps, simp\<close>)+
  next
    case False
    then show ?thesis by (subst fetch_loop.simps, subst fetch_iters.simps) simp
  qed
qed

lemma extract_loop_count:
  assumes step: "\<And>s. fst s < tries \<Longrightarrow> f (ctl_state (extract_body env ident s)) = Suc (f s)"
  shows "f (snd (extract_loop env ident s)) = f s + extract_iters env ident s"
  using step
proof (induction env ident s rule: extract_loop.induct)
  case (1 env ident s)
  show ?case
  proof (cases "fst s < tries")
    case True
    note st = "1.prems" [OF True]
    show ?thesis
    proof (cases "extract_body env ident s")
      case (Continue s')
      have "f (snd (extract_loop env ident s')) = f s' + extract_iters env ident s'"
        using "1.IH" [OF True Continue] "1.prems" by blast
      moreover have "f s' = Suc (f s)" using st Continue by simp
      moreover have "extract_loop env ident s = extract_loop env ident s'"
        using True Continue by (subst extract_loop.simps) simp
      moreover have "extract_iters env ident s = 1 + extract_iters env ident s'"
        using True Continue by (subst extract_iters.simps) simp
      ultimately show ?thesis by simp
    qed (use True st in \<open>subst extract_loop.simps, subst extract_iters.simps, simp\<close>)+
  next
    case False
    then show ?thesis by (subst extract_loop.simps, subst extract_iters.simps) simp
  qed
qed

lemma cleanup_loop_count:
  assumes step: "\<And>s. fst s < tries \<Longrightarrow> f (ctl_state (cleanup_body env ident badzip s)) = Suc (f s)"
  shows "f (cleanup_loop env ident badzip s) = f s + cleanup_iters env ident badzip s"
  using step
proof (induction env ident badzip s rule: cleanup_loop.induct)
  case (1 env ident badzip s)
  show ?case
  proof (cases "fst s < tries")
    case True
    note st = "1.prems" [OF True]
    show ?thesis
    proof (cases "cleanup_body env ident badzip s")
      case (Continue s')
      have "f (cleanup_loop env ident badzip s') = f s' + cleanup_iters env ident badzip s'"
        using "1.IH" [OF True Continue] "1.prems" by blast
      moreover have "f s' = Suc (f s)" using st Continue by simp
      moreover have "cleanup_loop env ident badzip s = cleanup_loop env ident badzip s'"
        using True Continue by (subst cleanup_loop.simps) simp
      moreover have "cleanup_iters env ident badzip s = 1 + cleanup_iters env ident badzip s'"
        using True Continue by (subst cleanup_iters.simps) simp
      ultimately show ?thesis by simp
    qed (use True st in \<open>subst cleanup_loop.simps, subst cleanup_iters.simps, simp\<close>)+
  next
    case False
    then show ?thesis by (subst cleanup_loop.simps, subst cleanup_iters.simps) simp
  qed
qed

lemma login_loop_count:
  assumes step: "\<And>s. fst s < tries \<Longrightarrow> f (ctl_state (login_body env u p s)) = Suc (f s)"
  shows "f (login_loop env u p s) = f s + login_iters env u p s"
  using step
proof (induction env u p s rule: login_loop.induct)
  case (1 env u p s)
  show ?case
  proof (cases "fst s < tries")
    case True
    note st = "1.prems" [OF True]
    show ?thesis
    proof (cases "login_body env u p s")
      case (Continue s')
      have "f (login_loop env u p s') = f s' + login_iters env u p s'"
        using "1.IH" [OF True Continue] "1.prems" by blast
      moreover have "f s' = Suc (f s)" using st Continue by simp
      moreover have "login_loop env u p s = login_loop env u p s'"
        using True Continue by (subst login_loop.simps) simp
      moreover have "login_iters env u p s = 1 + login_iters env u p s'"
        using True Continue by (subst login_iters.simps) simp
      ultimately show ?thesis by simp
    qed (use True st in \<open>subst login_loop.simps, subst login_iters.simps, simp\<close>)+
  next
    case False
    then show ?thesis by (subst login_loop.simps, subst login_iters.simps) simp
  qed
qed

text \<open>Each pass makes exactly one call of its kind.\<close>

lemma fetch_loop_gets_count:
  "length (gets (trace (snd (fetch_loop env durl ident s))))
     = length (gets (trace (snd s))) + fetch_iters env durl ident s"
  by (rule fetch_loop_count [where f = "\<lambda>s. length (gets (trace (snd s)))"])
     (auto simp: fetch_body_def gets_def split: prod.splits bool.splits dest!: driver_getD)

lemma extract_loop_opens_count:
  "length (opens (trace (snd (snd (snd (snd (extract_loop env ident s)))))))
     = length (opens (trace (snd (snd (snd s))))) + extract_iters env ident s"
  by (rule extract_loop_count [where f = "\<lambda>s. length (opens (trace (snd (snd (snd s)))))"])
     (auto simp: extract_body_def opens_def
           split: prod.splits opened.splits option.splits member.splits sum.splits dest!: open_zipD)

lemma cleanup_loop_removes_count:
  "length (removes (trace (snd (cleanup_loop env ident badzip s))))
     = length (removes (trace (snd s))) + cleanup_iters env ident badzip s"
  by (rule cleanup_loop_count [where f = "\<lambda>s. length (removes (trace (snd s)))"])
     (auto simp: cleanup_body_def removes_def py_truthy_invert split: prod.splits bool.splits dest!: os_removeD)

lemma login_loop_finds_count:
  "count_list (trace (snd (login_loop env u p s))) (Find (ById ''username''))
     = count_list (trace (snd s)) (Find (ById ''username'')) + login_iters env u p s"
  by (rule login_loop_count [where f = "\<lambda>s. count_list (trace (snd s)) (Find (ById ''username''))"])
     (auto simp: login_body_def split: prod.splits bool.splits dest!: find_elementD)

lemma fetch_loop_frame2:
  "opens (trace (snd (fetch_loop env durl ident s))) = opens (trace (snd s))
   \<and> removes (trace (snd (fetch_loop env durl ident s))) = removes (trace (snd s))"
  by (rule fetch_loop_rel
        [where R = "\<lambda>a b. opens (trace (snd b)) = opens (trace (snd a))
                      \<and> removes (trace (snd b)) = removes (trace (snd a))"])
     (auto simp: fetch_body_def opens_def removes_def split: prod.splits bool.splits dest!: driver_getD)

lemma extract_loop_frame2:
  "removes (trace (snd (snd (snd (snd (extract_loop env ident s)))))) = removes (trace (snd (snd (snd s))))"
  by (rule extract_loop_rel
        [where R = "\<lambda>a b. removes (trace (snd (snd (snd b)))) = removes (trace (snd (snd (snd a))))"])
     (auto simp: extract_body_def removes_def
           split: prod.splits opened.splits option.splits member.splits sum.splits dest!: open_zipD)

lemma cleanup_loop_frame2:
  "opens (trace (snd (cleanup_loop env ident badzip s))) = opens (trace (snd s))"
  by (rule cleanup_loop_rel
        [where R = "\<lambda>a b. opens (trace (snd b)) = opens (trace (snd a))"])
     (auto simp: cleanup_body_def opens_def split: prod.splits bool.splits if_splits dest!: os_removeD)

lemma process_zip_calls:
  "length (gets (trace (snd (process_zip env durl ident w)))) \<le> length (gets (trace w)) + tries
   \<and> length (opens (trace (snd (process_zip env durl ident w)))) \<le> length (opens (trace w)) + tries
   \<and> length (removes (trace (snd (process_zip env durl ident w)))) \<le> length (removes (trace w)) + tries"
proof -
  let ?w1 = "snd (fetch_loop env durl ident (0, w))"
  obtain r i b df w2 where eq: "extract_loop env ident (0, False, None, ?w1) = (r, (i, b, df, w2))"
    by (cases "extract_loop env ident (0, False, None, ?w1)") auto
  have g: "length (gets (trace (snd (process_zip env durl ident w)))) \<le> length (gets (trace w)) + tries"
    using fetch_loop_gets_count [of env durl ident "(0, w)"] fetch_iters_le [of env durl ident "(0, w)"]
    by (simp add: process_zip_gets)
  have o2: "length (opens (trace w2)) \<le> length (opens (trace w)) + tries"
    using extract_loop_opens_count [of env ident "(0, False, None, ?w1)"]
          extract_iters_le [of env ident "(0, False, None, ?w1)"]
          fetch_loop_frame2 [of env durl ident "(0, w)"] eq
    by simp
  have r2: "removes (trace w2) = removes (trace w)"
    using extract_loop_frame2 [of env ident "(0, False, None, ?w1)"]
          fetch_loop_frame2 [of env durl ident "(0, w)"] eq
    by simp
  have r3: "length (removes (trace (snd (cleanup_loop env ident b (0, w2))))) \<le> length (removes (trace w)) + tries"
    using cleanup_loop_removes_count [of env ident b "(0, w2)"] cleanup_iters_le [of env ident b "(0, w2)"] r2
    by simp
  have o3: "opens (trace (snd (cleanup_loop env ident b (0, w2)))) = opens (trace w2)"
    using cleanup_loop_frame2 [of env ident b "(0, w2)"] by simp
  show ?thesis
    using g o2 r2 r3 o3 process_zip_after_extract [OF eq]
    by (auto simp: opens_def removes_def split: option.splits)
qed

text \<open>
  Claim C9. Every retry loop of the worker ends within \<open>tries\<close> passes through its
  body: the loop that downloads makes one \<^verbatim>\<open>driver.get\<close> call per pass, the loop that opens
  the archive one \<^verbatim>\<open>ZipFile\<close> call, the loop that deletes it one \<^verbatim>\<open>os.remove\<close> call, and no
  loop, and so no run of the worker, makes more than \<open>tries\<close> of them. The guard
  \<^verbatim>\<open>~badzip\<close> of the cleanup loop is truthy for both values of \<^verbatim>\<open>badzip\<close>, so each pass
  through that loop's body either breaks or leaves with the counter incremented.
\<close>

theorem retry_loops_bounded:
  "py_truthy (py_invert badzip)
   \<and> fetch_iters env durl ident (0, w) \<le> tries
   \<and> extract_iters env ident (0, False, None, w) \<le> tries
   \<and> cleanup_iters env ident badzip (0, w) \<le> tries
   \<and> ((\<exists>w'. cleanup_body env ident badzip (i, w) = Break (i, w'))
        \<or> (\<exists>w'. cleanup_body env ident badzip (i, w) = Continue (i + 1, w')))
   \<and> length (gets (trace (snd (fetch_loop env durl ident (0, w)))))
       = length (gets (trace w)) + fetch_iters env durl ident (0, w)
   \<and> length (opens (trace (snd (snd (snd (snd (extract_loop env ident (0, False, None, w))))))))
       = length (opens (trace w)) + extract_iters env ident (0, False, None, w)
   \<and> length (removes (trace (snd (cleanup_loop env ident badzip (0, w)))))
       = length (removes (trace w)) + cleanup_iters env ident badzip (0, w)
   \<and> fst (fetch_loop env durl ident (0, w)) \<le> tries
   \<and> fst (snd (extract_loop env ident (0, False, None, w))) \<le> tries
   \<and> fst (cleanup_loop env ident badzip (0, w)) \<le> tries
   \<and> length (gets (trace (snd (process_zip env durl ident w)))) \<le> length (gets (trace w)) + tries
   \<and> length (opens (trace (snd (process_zip env durl ident w)))) \<le> length (opens (trace w)) + tries
   \<and> length (removes (trace (snd (process_zip env durl ident w)))) \<le> length (removes (trace w)) + tries"
proof -
  have 1: "fst (fetch_loop env durl ident (0, w)) \<le> tries"
    by (rule fetch_loop_rel [where R = "\<lambda>a b. fst a \<le> tries \<longrightarrow> fst b \<le> tries", THEN mp])
       (auto dest: fetch_body_Continue simp: fetch_body_def split: prod.splits bool.splits)
  have 2: "fst (snd (extract_loop env ident (0, False, None, w))) \<le> tries"
    by (rule extract_loop_rel [where R = "\<lambda>a b. fst a \<le> tries \<longrightarrow> fst b \<le> tries", THEN mp])
       (auto simp: extract_body_def
             split: prod.splits opened.splits option.splits member.splits sum.splits)
  have 3: "fst (cleanup_loop env ident badzip (0, w)) \<le> tries"
    by (rule cleanup_loop_rel [where R = "\<lambda>a b. fst a \<le> tries \<longrightarrow> fst b \<le> tries", THEN mp])
       (auto simp: cleanup_body_def split: prod.splits bool.splits if_splits)
  show ?thesis
    using fetch_iters_le [of env durl ident "(0, w)"]
          extract_iters_le [of env ident "(0, False, None, w)"]
          cleanup_iters_le [of env ident badzip "(0, w)"]
          cleanup_body_cases [of env ident badzip i w]
          fetch_loop_gets_count [of env durl ident "(0, w)"]
          extract_loop_opens_count [of env ident "(0, False, None, w)"]
          cleanup_loop_removes_count [of env ident badzip "(0, w)"]
          process_zip_calls [of env durl ident w] 1 2 3
    by (simp add: py_truthy_invert)
qed

lemma send_keys_browser [simp]:
  "browser (send_keys env l s w) = after_send_keys env l s (browser w)"
  by (simp add: send_keys_def)

text \<open>What one pass through the body of the login loop does, by the elements it finds.\<close>

lemma login_body_pass:
  "login_body env u p (i, w) =
     (if \<not> element_present env (ById ''username'') (browser w)
      then Continue (i + 1, sleep env 2 (emit (Find (ById ''username'')) w))
      else if \<not> element_present env (ByXPath ''//input[@placeholder='Password']'')
                  (after_send_keys env (ById ''username'') u (browser w))
      then Continue (i + 1, sleep env 2
             (emit (Find (ByXPath ''//input[@placeholder='Password']''))
                (send_keys env (ById ''username'') u (emit (Find (ById ''username'')) w))))
      else if \<not> element_present env (ById ''submit'')
                  (after_send_keys env (ByXPath ''//input[@placeholder='Password']'') p
                     (after_send_keys env (ById ''username'') u (browser w)))
      then Continue (i + 1, sleep env 2
             (emit (Find (ById ''submit''))
                (send_keys env (ByXPath ''//input[@placeholder='Password']'') p
                   (emit (Find (ByXPath ''//input[@placeholder='Password']''))
                      (send_keys env (ById ''username'') u (emit (Find (ById ''username'')) w))))))
      else Break (i, click env (ById ''submit'')
             (emit (Find (ById ''submit''))
                (send_keys env (ByXPath ''//input[@placeholder='Password']'') p
                   (emit (Find (ByXPath ''//input[@placeholder='Password']''))
                      (send_keys env (ById ''username'') u (emit (Find (ById ''username'')) w)))))))"
  by (simp add: login_body_def find_element_def)

text \<open>
  Claim C8. Once the login page has been requested, the authenticator runs the body of
  its retry loop at most 20 times: \<^verbatim>\<open>login\<close> looks the username field up once per pass
  and at most 20 times in all. A pass looks up the username field, types the username,
  looks up the password field, types the password, looks up the submit control and clicks
  it; it breaks off at the first element that is missing, increments the counter and
  sleeps two seconds, and only a pass that found all three elements, filled both fields
  and clicked ends the loop. In either case, also after 20 failed passes, \<^verbatim>\<open>login\<close> sleeps
  three seconds and returns normally, with nothing that tells the caller whether the
  submit happened.
\<close>

theorem login_retries_bounded_and_silent:
  assumes "driver_get env lurl w = (False, w1)"
  shows
    "login_iters env u p (0, sleep env 2 w1) \<le> 20
     \<and> login env lurl u p w
         = (Inr (), sleep env 3 (snd (login_loop env u p (0, sleep env 2 w1))))
     \<and> (login_body env u p (i, wa) = Continue sa \<longrightarrow>
           fst sa = i + 1 \<and> (\<exists>w'. snd sa = sleep env 2 w')
           \<and> ((\<not> element_present env (ById ''username'') (browser wa)
                 \<and> trace (snd sa) = trace wa @ [Find (ById ''username''), Sleep 2])
               \<or> (element_present env (ById ''username'') (browser wa)
                 \<and> \<not> element_present env (ByXPath ''//input[@placeholder='Password']'')
                        (after_send_keys env (ById ''username'') u (browser wa))
                 \<and> trace (snd sa) = trace wa @
                      [Find (ById ''username''), SendKeys (ById ''username'') u,
                       Find (ByXPath ''//input[@placeholder='Password']''), Sleep 2])
               \<or> (element_present env (ById ''username'') (browser wa)
                 \<and> element_present env (ByXPath ''//input[@placeholder='Password']'')
                        (after_send_keys env (ById ''username'') u (browser wa))
                 \<and> \<not> element_present env (ById ''submit'')
                        (after_send_keys env (ByXPath ''//input[@placeholder='Password']'') p
                           (after_send_keys env (ById ''username'') u (browser wa)))
                 \<and> trace (snd sa) = trace wa @
                      [Find (ById ''username''), SendKeys (ById ''username'') u,
                       Find (ByXPath ''//input[@placeholder='Password']''),
                       SendKeys (ByXPath ''//input[@placeholder='Password']'') p,
                       Find (ById ''submit''), Sleep 2])))
     \<and> (j < tries \<and> login_body env u p (j, wb) = Break sb \<longrightarrow>
           login_loop env u p (j, wb) = sb \<and> login_iters env u p (j, wb) = 1
           \<and> fst sb = j \<and> (\<exists>w'. snd sb = click env (ById ''submit'') w')
           \<and> element_present env (ById ''username'') (browser wb)
           \<and> element_present env (ByXPath ''//input[@placeholder='Password']'')
                 (after_send_keys env (ById ''username'') u (browser wb))
           \<and> element_present env (ById ''submit'')
                 (after_send_keys env (ByXPath ''//input[@placeholder='Password']'') p
                    (after_send_keys env (ById ''username'') u (browser wb)))
           \<and> trace (snd sb) = trace wb @
                [Find (ById ''username''), SendKeys (ById ''username'') u,
                 Find (ByXPath ''//input[@placeholder='Password']''),
                 SendKeys (ByXPath ''//input[@placeholder='Password']'') p,
                 Find (ById ''submit''), Click (ById ''submit'')])
     \<and> count_list (trace (snd (login env lurl u p w))) (Find (ById ''username''))
         = count_list (trace w) (Find (ById ''username'')) + login_iters env u p (0, sleep env 2 w1)
     \<and> count_list (trace (snd (login env lurl u p w))) (Find (ById ''username''))
         \<le> count_list (trace w) (Find (ById ''username'')) + 20
     \<and> trace (snd (login env lurl u p w))
         = trace (snd (login_loop env u p (0, sleep env 2 w1))) @ [Sleep 3]"
proof -
  have bound: "login_iters env u p (0, sleep env 2 w1) \<le> 20"
    using login_iters_le [of env u p "(0, sleep env 2 w1)"] by (simp add: tries_def)
  have lg: "login env lurl u p w = (Inr (), sleep env 3 (snd (login_loop env u p (0, sleep env 2 w1))))"
    using assms by (simp add: login_def)
  have cont: "login_body env u p (i, wa) = Continue sa \<longrightarrow>
           fst sa = i + 1 \<and> (\<exists>w'. snd sa = sleep env 2 w')
           \<and> ((\<not> element_present env (ById ''username'') (browser wa)
                 \<and> trace (snd sa) = trace wa @ [Find (ById ''username''), Sleep 2])
               \<or> (element_present env (ById ''username'') (browser wa)
                 \<and> \<not> element_present env (ByXPath ''//input[@placeholder='Password']'')
                        (after_send_keys env (ById ''username'') u (browser wa))
                 \<and> trace (snd sa) = trace wa @
                      [Find (ById ''username''), SendKeys (ById ''username'') u,
                       Find (ByXPath ''//input[@placeholder='Password']''), Sleep 2])
               \<or> (element_present env (ById ''username'') (browser wa)
                 \<and> element_present env (ByXPath ''//input[@placeholder='Password']'')
                        (after_send_keys env (ById ''username'') u (browser wa))
                 \<and> \<not> element_present env (ById ''submit'')
                        (after_send_keys env (ByXPath ''//input[@placeholder='Password']'') p
                           (after_send_keys env (ById ''username'') u (browser wa)))
                 \<and> trace (snd sa) = trace wa @
                      [Find (ById ''username''), SendKeys (ById ''username'') u,
                       Find (ByXPath ''//input[@placeholder='Password']''),
                       SendKeys (ByXPath ''//input[@placeholder='Password']'') p,
                       Find (ById ''submit''), Sleep 2]))"
    by (auto simp: login_body_pass split: if_splits)
  have brk: "j < tries \<and> login_body env u p (j, wb) = Break sb \<longrightarrow>
           login_loop env u p (j, wb) = sb \<and> login_iters env u p (j, wb) = 1
           \<and> fst sb = j \<and> (\<exists>w'. snd sb = click env (ById ''submit'') w')
           \<and> element_present env (ById ''username'') (browser wb)
           \<and> element_present env (ByXPath ''//input[@placeholder='Password']'')
                 (after_send_keys env (ById ''username'') u (browser wb))
           \<and> element_present env (ById ''submit'')
                 (after_send_keys env (ByXPath ''//input[@placeholder='Password']'') p
                    (after_send_keys env (ById ''username'') u (browser wb)))
           \<and> trace (snd sb) = trace wb @
                [Find (ById ''username''), SendKeys (ById ''username'') u,
                 Find (ByXPath ''//input[@placeholder='Password']''),
                 SendKeys (ByXPath ''//input[@placeholder='Password']'') p,
                 Find (ById ''submit''), Click (ById ''submit'')]"
  proof (intro impI)
    assume b: "j < tries \<and> login_body env u p (j, wb) = Break sb"
    then have l: "login_loop env u p (j, wb) = sb \<and> login_iters env u p (j, wb) = 1"
      using login_iters_Break [of "(j, wb)" env u p sb] by simp
    from b have "fst sb = j \<and> (\<exists>w'. snd sb = click env (ById ''submit'') w')
           \<and> element_present env (ById ''username'') (browser wb)
           \<and> element_present env (ByXPath ''//input[@placeholder='Password']'')
                 (after_send_keys env (ById ''username'') u (browser wb))
           \<and> element_present env (ById ''submit'')
                 (after_send_keys env (ByXPath ''//input[@placeholder='Password']'') p
                    (after_send_keys env (ById ''username'') u (browser wb)))
           \<and> trace (snd sb) = trace wb @
                [Find (ById ''username''), SendKeys (ById ''username'') u,
                 Find (ByXPath ''//input[@placeholder='Password']''),
                 SendKeys (ByXPath ''//input[@placeholder='Password']'') p,
                 Find (ById ''submit''), Click (ById ''submit'')]"
      by (auto simp: login_body_pass split: if_splits)
    with l show "login_loop env u p (j, wb) = sb \<and> login_iters env u p (j, wb) = 1
           \<and> fst sb = j \<and> (\<exists>w'. snd sb = click env (ById ''submit'') w')
           \<and> element_present env (ById ''username'') (browser wb)
           \<and> element_present env (ByXPath ''//input[@placeholder='Password']'')
                 (after_send_keys env (ById ''username'') u (browser wb))
           \<and> element_present env (ById ''submit'')
                 (after_send_keys env (ByXPath ''//input[@placeholder='Password']'') p
                    (after_send_keys env (ById ''username'') u (browser wb)))
           \<and> trace (snd sb) = trace wb @
                [Find (ById ''username''), SendKeys (ById ''username'') u,
                 Find (ByXPath ''//input[@placeholder='Password']''),
                 SendKeys (ByXPath ''//input[@placeholder='Password']'') p,
                 Find (ById ''submit''), Click (ById ''submit'')]"
      by blast
  qed
  have tr: "trace (snd (login env lurl u p w))
              = trace (snd (login_loop env u p (0, sleep env 2 w1))) @ [Sleep 3]"
    using lg by simp
  have cnt: "count_list (trace (snd (login env lurl u p w))) (Find (ById ''username''))
               = count_list (trace w) (Find (ById ''username'')) + login_iters env u p (0, sleep env 2 w1)"
    using tr login_loop_finds_count [of env u p "(0, sleep env 2 w1)"] driver_getD [OF assms]
    by simp
  from bound lg cont brk cnt tr show ?thesis by simp
qed

theorem login_retries_bounded_and_silent_witness:
  "login_iters (slow_page 1000) ''user'' ''secret''
      (0, sleep (slow_page 1000) 2 (snd (driver_get (slow_page 1000) login_url empty_world))) = 20
   \<and> fst (login (slow_page 1000) login_url ''user'' ''secret'' empty_world) = Inr ()
   \<and> fst (ctl_state (login_body (slow_page 1000) ''user'' ''secret'' (0, empty_world))) = 1
   \<and> login_iters (slow_page 1000) ''user'' ''secret'' (7, empty_world\<lparr>browser := 1000\<rparr>) = 1
   \<and> count_list (trace (snd (login (slow_page 1000) login_url ''user'' ''secret'' empty_world)))
        (Find (ById ''username'')) = 20
   \<and> trace (snd (ctl_state (login_body (slow_page 1000) ''user'' ''secret'' (0, empty_world))))
       = [Find (ById ''username''), Sleep 2]
   \<and> trace (snd (ctl_state (login_body (slow_page 1000) ''user'' ''secret''
                               (7, empty_world\<lparr>browser := 1000\<rparr>))))
       = [Find (ById ''username''), SendKeys (ById ''username'') ''user'',
          Find (ByXPath ''//input[@placeholder='Password']''),
          SendKeys (ByXPath ''//input[@placeholder='Password']'') ''secret'',
          Find (ById ''submit''), Click (ById ''submit'')]"
proof -
  let ?e = "slow_page 1000"
  let ?late = "empty_world\<lparr>browser := 1000\<rparr>"
  have "fst (driver_get ?e login_url empty_world) = False" by code_simp
  then obtain w1 where g: "driver_get ?e login_url empty_world = (False, w1)"
    by (cases "driver_get ?e login_url empty_world") auto
  have c: "login_body ?e ''user'' ''secret'' (0, empty_world)
             = Continue (ctl_state (login_body ?e ''user'' ''secret'' (0, empty_world)))"
    by code_simp
  have b: "7 < tries \<and> login_body ?e ''user'' ''secret'' (7, ?late)
             = Break (ctl_state (login_body ?e ''user'' ''secret'' (7, ?late)))"
    by code_simp
  have n: "login_iters ?e ''user'' ''secret'' (0, sleep ?e 2 (snd (driver_get ?e login_url empty_world))) = 20"
    by code_simp
  have absent: "\<not> element_present ?e (ById ''username'') (browser empty_world)" by code_simp
  have t0: "trace empty_world = []" "trace ?late = []" by (simp_all add: empty_world_def)
  note login_facts = login_retries_bounded_and_silent
         [OF g, where u = "''user''" and p = "''secret''" and i = 0 and wa = empty_world
            and sa = "ctl_state (login_body ?e ''user'' ''secret'' (0, empty_world))"
            and j = 7 and wb = ?late
            and sb = "ctl_state (login_body ?e ''user'' ''secret'' (7, ?late))"]
  from login_facts
  have "count_list (trace (snd (login ?e login_url ''user'' ''secret'' empty_world))) (Find (ById ''username''))
          = count_list (trace empty_world) (Find (ById ''username''))
            + login_iters ?e ''user'' ''secret'' (0, sleep ?e 2 w1)"
    by blast
  with n g t0 have lookups:
    "count_list (trace (snd (login ?e login_url ''user'' ''secret'' empty_world))) (Find (ById ''username'')) = 20"
    by simp
  from login_facts c b absent t0
  have passes: "fst (login ?e login_url ''user'' ''secret'' empty_world) = Inr ()"
    "fst (ctl_state (login_body ?e ''user'' ''secret'' (0, empty_world))) = 1"
    "login_iters ?e ''user'' ''secret'' (7, ?late) = 1"
    "trace (snd (ctl_state (login_body ?e ''user'' ''secret'' (0, empty_world))))
       = [Find (ById ''username''), Sleep 2]"
    "trace (snd (ctl_state (login_body ?e ''user'' ''secret'' (7, ?late))))
       = [Find (ById ''username''), SendKeys (ById ''username'') ''user'',
          Find (ByXPath ''//input[@placeholder='Password']''),
          SendKeys (ByXPath ''//input[@placeholder='Password']'') ''secret'',
          Find (ById ''submit''), Click (ById ''submit'')]"
    by simp_all
  from n g lookups passes show ?thesis by simp
qed

end
